theory Spec2Isabelle
  imports Main "HOL-Library.Word" "HOL-Library.AList"
begin

unbundle bit_operations_syntax

section \<open>Basic types\<close>

text \<open>
  The C sources use GLib's fixed-width integers. Block numbers, ages and the encoder's
  block counter are \<open>guint\<close> (32 bit, wrapping); bytes are \<open>guint8\<close>; the presence bitmask
  consists of \<open>guint64\<close> words. A \<open>GstBuffer\<close> is modelled by its byte contents.
  Counters that the code bounds by the table sizes (packet counts, ADU counts, lengths)
  are natural numbers.
\<close>

type_synonym guint = "32 word"
type_synonym guint8 = "8 word"
type_synonym guint64 = "64 word"
type_synonym GstBuffer = "guint8 list"

datatype GstFlowReturn =
    GST_FLOW_OK
  | GST_FLOW_NOT_LINKED
  | GST_FLOW_FLUSHING
  | GST_FLOW_EOS
  | GST_FLOW_NOT_NEGOTIATED
  | GST_FLOW_ERROR
  | GST_FLOW_NOT_SUPPORTED

datatype of_status_t = OF_STATUS_OK | OF_STATUS_FAILURE | OF_STATUS_ERROR | OF_STATUS_FATAL_ERROR

datatype GstEvent = GST_EVENT_STREAM_START | GST_EVENT_CAPS | GST_EVENT_SEGMENT | GST_EVENT_EOS

datatype GstPadName = SRC | FECSOURCE | FECREPAIR

datatype pad_item = PadBuffer GstBuffer | PadEvent GstEvent

datatype element_message = ELEMENT_ERROR string | ELEMENT_WARNING string

text \<open>
  Ways in which the C code stops instead of returning: a failed \<open>g_assert\<close>, an access
  outside an allocated table or buffer, and a dereference of a NULL pointer.
\<close>

datatype fault = AssertionFailed | OutOfBounds | NullDereference

section \<open>Collaborators: downstream pads and OpenFEC\<close>

text \<open>
  GStreamer's pads and the OpenFEC codec are not part of the repository. Each is a record
  holding the history of what the element handed to it and a reply function that
  answers from the whole history, so that every deterministic peer is covered.
\<close>

record Downstream =
  pushed :: "(GstPadName \<times> pad_item) list"
  push_reply :: "(GstPadName \<times> pad_item) list \<Rightarrow> GstFlowReturn"

definition gst_pad_push :: "Downstream \<Rightarrow> GstPadName \<Rightarrow> GstBuffer \<Rightarrow> GstFlowReturn \<times> Downstream" where
  "gst_pad_push ds pad buffer =
     (let h = pushed ds @ [(pad, PadBuffer buffer)]
      in (push_reply ds h, ds\<lparr>pushed := h\<rparr>))"

definition gst_pad_push_event :: "Downstream \<Rightarrow> GstPadName \<Rightarrow> GstEvent \<Rightarrow> Downstream" where
  "gst_pad_push_event ds pad event = ds\<lparr>pushed := pushed ds @ [(pad, PadEvent event)]\<rparr>"

datatype of_call =
    OF_create_codec_instance
  | OF_set_fec_parameters nat nat nat
  | OF_set_available_symbols "GstBuffer option list"
  | OF_finish_decoding
  | OF_get_source_symbols_tab
  | OF_build_repair_symbol "GstBuffer list" nat
  | OF_release_codec_instance

record OpenFEC =
  of_calls :: "of_call list"
  of_status :: "of_call list \<Rightarrow> of_status_t"
  of_source_symbols :: "of_call list \<Rightarrow> GstBuffer option list"
  of_repair_symbol :: "of_call list \<Rightarrow> GstBuffer"

definition of_invoke :: "OpenFEC \<Rightarrow> of_call \<Rightarrow> of_status_t \<times> OpenFEC" where
  "of_invoke lib c = (let h = of_calls lib @ [c] in (of_status lib h, lib\<lparr>of_calls := h\<rparr>))"

section \<open>Block-number ageing (gstrsfecdec.c)\<close>

definition gst_rs_fec_dec_check_if_source_block_in_range :: "guint \<Rightarrow> guint \<Rightarrow> guint \<Rightarrow> bool" where
  "gst_rs_fec_dec_check_if_source_block_in_range block_nr start end_nr =
     (if start < end_nr then (block_nr \<ge> start) \<and> (block_nr \<le> end_nr)
      else if start > end_nr then (block_nr \<le> end_nr) \<or> (block_nr \<ge> start)
      else block_nr = start)"

definition gst_rs_fec_dec_is_source_block_nr_newer :: "guint \<Rightarrow> guint \<Rightarrow> bool" where
  "gst_rs_fec_dec_is_source_block_nr_newer candidate_block_nr reference_block_nr =
     (let newer_range = push_bit 22 (1 :: guint);
          total_range = push_bit 24 (1 :: guint);
          start = reference_block_nr + 1;
          end_nr = (reference_block_nr + (newer_range - 1)) AND (total_range - 1)
      in gst_rs_fec_dec_check_if_source_block_in_range candidate_block_nr start end_nr)"

definition gst_rs_fec_dec_is_source_block_nr_recent_enough :: "guint \<Rightarrow> guint \<Rightarrow> guint \<Rightarrow> bool" where
  "gst_rs_fec_dec_is_source_block_nr_recent_enough candidate_block_nr reference_block_nr max_age =
     (let newer_range = push_bit 22 (1 :: guint);
          total_range = push_bit 24 (1 :: guint);
          start = (reference_block_nr + total_range - (max_age - 1)) AND (total_range - 1);
          end_nr = (reference_block_nr + (newer_range - 1)) AND (total_range - 1)
      in gst_rs_fec_dec_check_if_source_block_in_range candidate_block_nr start end_nr)"

text \<open>
  The specification's notion of a circular range on the 24-bit block-number circle:
  \<open>c\<close> lies in \<open>[a, b]\<close> when walking forward from \<open>a\<close> reaches \<open>c\<close> no later than \<open>b\<close>.
  The end points are integers and are read modulo \<open>2^24\<close>.
\<close>

definition in_circular_range :: "int \<Rightarrow> int \<Rightarrow> int \<Rightarrow> bool" where
  "in_circular_range a b c = ((c - a) mod 2 ^ 24 \<le> (b - a) mod 2 ^ 24)"

section \<open>FEC payload ID (6 bytes: block number u24be, ESI u8, k u16be)\<close>

text \<open>The three big-endian bytes of a block number, as both readers of the decoder combine them.\<close>

definition payload_id_block_nr :: "guint8 list \<Rightarrow> guint" where
  "payload_id_block_nr bytes =
     (push_bit 16 (ucast (bytes ! 0) :: guint)) OR (push_bit 8 (ucast (bytes ! 1) :: guint))
       OR (ucast (bytes ! 2) :: guint)"

text \<open>
  Source packets carry the payload ID in their last 6 bytes, repair packets in their
  first 6 bytes. Both readers return the pair (block number, ESI); callers only pass
  packets of at least 6 bytes.
\<close>

definition gst_rs_fec_dec_source_packet_read_payload_id :: "GstBuffer \<Rightarrow> guint \<times> nat" where
  "gst_rs_fec_dec_source_packet_read_payload_id fec_source_packet =
     (payload_id_block_nr (drop (length fec_source_packet - 6) fec_source_packet),
      unat (fec_source_packet ! (length fec_source_packet - 3)))"

definition gst_rs_fec_dec_repair_packet_read_payload_id :: "GstBuffer \<Rightarrow> guint \<times> nat" where
  "gst_rs_fec_dec_repair_packet_read_payload_id fec_repair_packet =
     (payload_id_block_nr fec_repair_packet, unat (fec_repair_packet ! 3))"

text \<open>The payload ID as the encoder writes it (same code for source and repair packets).\<close>

definition fec_payload_id :: "guint \<Rightarrow> nat \<Rightarrow> nat \<Rightarrow> guint8 list" where
  "fec_payload_id source_block_nr esi num_source_symbols =
     [ucast (drop_bit 16 (source_block_nr AND 0xFF0000)),
      ucast (drop_bit 8 (source_block_nr AND 0x00FF00)),
      ucast (drop_bit 0 (source_block_nr AND 0x0000FF)),
      of_nat (esi AND 0xFF),
      of_nat (drop_bit 8 (num_source_symbols AND 0xFF00)),
      of_nat (drop_bit 0 (num_source_symbols AND 0x00FF))]"

text \<open>The ADUI (source symbol): flow id, 16-bit big-endian ADU length, ADU bytes, zero padding.\<close>

definition adui :: "nat \<Rightarrow> nat \<Rightarrow> GstBuffer \<Rightarrow> nat \<Rightarrow> guint8 list" where
  "adui adu_flow_id adu_length adu symbol_length =
     [of_nat adu_flow_id,
      of_nat (drop_bit 8 (adu_length AND 0xFF00)),
      of_nat (adu_length AND 0xFF)]
     @ take adu_length adu @ replicate (symbol_length - (adu_length + 3)) 0"

section \<open>Decoder: source blocks (gstrsfecdec.c)\<close>

text \<open>
  \<open>GstRSFECDecSourceBlock\<close>. The packet lists are GSLists built by prepending; the
  output table has \<open>num_source_symbols\<close> slots, \<open>None\<close> standing for NULL.
\<close>

record GstRSFECDecSourceBlock =
  block_nr :: guint
  packet_mask :: "guint64 list"
  source_packets :: "GstBuffer list"
  repair_packets :: "GstBuffer list"
  num_source_packets :: nat
  num_repair_packets :: nat
  output_adu_table :: "GstBuffer option list"
  is_complete :: bool

definition SOURCE_BLOCK_SET_FLAG :: "GstRSFECDecSourceBlock \<Rightarrow> nat \<Rightarrow> GstRSFECDecSourceBlock" where
  "SOURCE_BLOCK_SET_FLAG srcblock idx =
     srcblock\<lparr>packet_mask := (packet_mask srcblock)
        [drop_bit 6 idx := (packet_mask srcblock ! drop_bit 6 idx) OR push_bit (idx AND 63) 1]\<rparr>"

definition SOURCE_BLOCK_IS_FLAG_SET :: "GstRSFECDecSourceBlock \<Rightarrow> nat \<Rightarrow> bool" where
  "SOURCE_BLOCK_IS_FLAG_SET srcblock idx =
     (((packet_mask srcblock ! drop_bit 6 idx) AND push_bit (idx AND 63) 1) \<noteq> 0)"

text \<open>
  \<open>GstRSFECDec\<close>. The hash table from block numbers to source blocks is an association
  list; its order stands for the (unspecified) iteration order of the GHashTable.
  Buffer timestamps (\<open>do_timestamp\<close>) are metadata outside the byte contents and are not
  modelled. \<open>processing_log\<close> records the block numbers of the log line
  "source block #n can be processed now".
\<close>

record GstRSFECDec =
  num_source_symbols :: nat
  num_repair_symbols :: nat
  num_encoding_symbols :: nat
  max_source_block_age :: guint
  do_timestamp :: bool
  sort_output :: bool
  first_adu :: bool
  encoding_symbol_length :: nat
  source_block_table :: "(guint \<times> GstRSFECDecSourceBlock) list"
  first_pruning :: bool
  most_recent_block_nr :: guint
  segment_started :: bool
  stream_started :: bool
  fecsource_eos :: bool
  fecrepair_eos :: bool
  downstream :: Downstream
  openfec :: OpenFEC
  messages :: "element_message list"
  processing_log :: "guint list"

definition gst_rs_fec_dec_init :: "Downstream \<Rightarrow> OpenFEC \<Rightarrow> GstRSFECDec" where
  "gst_rs_fec_dec_init ds lib =
     \<lparr>num_source_symbols = 4, num_repair_symbols = 2, num_encoding_symbols = 4 + 2,
      max_source_block_age = 1, do_timestamp = True, sort_output = True, first_adu = True,
      encoding_symbol_length = 0, source_block_table = [], first_pruning = True,
      most_recent_block_nr = 0, segment_started = False, stream_started = False,
      fecsource_eos = False, fecrepair_eos = False,
      downstream = ds, openfec = lib, messages = [], processing_log = []\<rparr>"

text \<open>
  \<open>gst_rs_fec_dec_set_property\<close>, for a decoder whose encoding symbol tables are not yet
  allocated (the only time the symbol numbers and the maximum age may change). A total
  above 255 is reported but the values stay.
\<close>

datatype dec_property =
    PROP_NUM_SOURCE_SYMBOLS nat
  | PROP_NUM_REPAIR_SYMBOLS nat
  | PROP_MAX_SOURCE_BLOCK_AGE guint
  | PROP_DO_TIMESTAMP bool
  | PROP_SORT_OUTPUT bool

definition check_num_encoding_symbols :: "GstRSFECDec \<Rightarrow> GstRSFECDec" where
  "check_num_encoding_symbols rs_fec_dec =
     (if num_encoding_symbols rs_fec_dec > 255
      then rs_fec_dec\<lparr>messages := messages rs_fec_dec @
             [ELEMENT_ERROR ''invalid total number of encoding symbols'']\<rparr>
      else rs_fec_dec)"

fun gst_rs_fec_dec_set_property :: "GstRSFECDec \<Rightarrow> dec_property \<Rightarrow> GstRSFECDec" where
  "gst_rs_fec_dec_set_property rs_fec_dec (PROP_NUM_SOURCE_SYMBOLS v) =
     check_num_encoding_symbols
       (rs_fec_dec\<lparr>num_source_symbols := v,
                   num_encoding_symbols := v + num_repair_symbols rs_fec_dec\<rparr>)"
| "gst_rs_fec_dec_set_property rs_fec_dec (PROP_NUM_REPAIR_SYMBOLS v) =
     check_num_encoding_symbols
       (rs_fec_dec\<lparr>num_repair_symbols := v,
                   num_encoding_symbols := num_source_symbols rs_fec_dec + v\<rparr>)"
| "gst_rs_fec_dec_set_property rs_fec_dec (PROP_MAX_SOURCE_BLOCK_AGE v) =
     rs_fec_dec\<lparr>max_source_block_age := v\<rparr>"
| "gst_rs_fec_dec_set_property rs_fec_dec (PROP_DO_TIMESTAMP v) = rs_fec_dec\<lparr>do_timestamp := v\<rparr>"
| "gst_rs_fec_dec_set_property rs_fec_dec (PROP_SORT_OUTPUT v) = rs_fec_dec\<lparr>sort_output := v\<rparr>"

definition gst_rs_fec_dec_fetch_source_block :: "GstRSFECDec \<Rightarrow> guint \<Rightarrow> GstRSFECDecSourceBlock option" where
  "gst_rs_fec_dec_fetch_source_block rs_fec_dec nr = map_of (source_block_table rs_fec_dec) nr"

definition gst_rs_fec_dec_create_source_block ::
    "GstRSFECDec \<Rightarrow> guint \<Rightarrow> GstRSFECDecSourceBlock \<times> GstRSFECDec" where
  "gst_rs_fec_dec_create_source_block rs_fec_dec nr =
     (let source_block =
        \<lparr>block_nr = nr, packet_mask = replicate 8 0, source_packets = [], repair_packets = [],
         num_source_packets = 0, num_repair_packets = 0,
         output_adu_table = replicate (num_source_symbols rs_fec_dec) None, is_complete = False\<rparr>
      in (source_block,
          rs_fec_dec\<lparr>source_block_table :=
            AList.update nr source_block (source_block_table rs_fec_dec)\<rparr>))"

text \<open>
  The table holds pointers to heap-allocated blocks, so a change made through the
  pointer is a change of the table entry: the model writes the block back.
\<close>

definition store_source_block :: "GstRSFECDec \<Rightarrow> GstRSFECDecSourceBlock \<Rightarrow> GstRSFECDec" where
  "store_source_block rs_fec_dec source_block =
     rs_fec_dec\<lparr>source_block_table :=
       AList.update (block_nr source_block) source_block (source_block_table rs_fec_dec)\<rparr>"

definition gst_rs_fec_dec_can_source_block_be_processed :: "GstRSFECDec \<Rightarrow> GstRSFECDecSourceBlock \<Rightarrow> bool" where
  "gst_rs_fec_dec_can_source_block_be_processed rs_fec_dec source_block =
     ((num_source_packets source_block + num_repair_packets source_block) \<ge> num_source_symbols rs_fec_dec)"

definition CHECK_IF_FATAL_ERROR :: "GstRSFECDec \<Rightarrow> of_status_t \<Rightarrow> GstRSFECDec" where
  "CHECK_IF_FATAL_ERROR elem status =
     (if status = OF_STATUS_FATAL_ERROR
      then elem\<lparr>messages := messages elem @ [ELEMENT_ERROR ''OpenFEC reports fatal error'']\<rparr>
      else elem)"

definition gst_rs_fec_dec_push_adu :: "GstRSFECDec \<Rightarrow> GstBuffer \<Rightarrow> GstFlowReturn \<times> GstRSFECDec" where
  "gst_rs_fec_dec_push_adu rs_fec_dec adu =
     (let (ret, ds) = gst_pad_push (downstream rs_fec_dec) SRC adu
      in (ret, rs_fec_dec\<lparr>downstream := ds\<rparr>))"

definition gst_rs_fec_dec_push_stream_start :: "GstRSFECDec \<Rightarrow> GstRSFECDec" where
  "gst_rs_fec_dec_push_stream_start rs_fec_dec =
     (if stream_started rs_fec_dec then rs_fec_dec
      else rs_fec_dec\<lparr>downstream := gst_pad_push_event (downstream rs_fec_dec) SRC GST_EVENT_STREAM_START,
                      stream_started := True\<rparr>)"

definition gst_rs_fec_dec_push_segment :: "GstRSFECDec \<Rightarrow> GstRSFECDec" where
  "gst_rs_fec_dec_push_segment rs_fec_dec =
     (if segment_started rs_fec_dec then rs_fec_dec
      else rs_fec_dec\<lparr>downstream := gst_pad_push_event (downstream rs_fec_dec) SRC GST_EVENT_SEGMENT,
                      segment_started := True\<rparr>)"

text \<open>
  The loop of \<open>gst_rs_fec_dec_push_source_block\<close> over the ESIs \<open>0 .. k-1\<close>: empty slots are
  skipped, and after the first refused push the remaining ADUs are dropped.
\<close>

fun push_source_block_loop ::
    "GstRSFECDec \<Rightarrow> GstBuffer option list \<Rightarrow> bool \<Rightarrow> GstFlowReturn \<Rightarrow> GstFlowReturn \<times> GstRSFECDec" where
  "push_source_block_loop rs_fec_dec [] push_adus ret = (ret, rs_fec_dec)"
| "push_source_block_loop rs_fec_dec (None # adus) push_adus ret =
     push_source_block_loop rs_fec_dec adus push_adus ret"
| "push_source_block_loop rs_fec_dec (Some adu # adus) push_adus ret =
     (if push_adus
      then (let (ret', rs_fec_dec') = gst_rs_fec_dec_push_adu rs_fec_dec adu
            in if ret' \<noteq> GST_FLOW_OK
               then push_source_block_loop rs_fec_dec' adus False ret'
               else push_source_block_loop rs_fec_dec' adus True ret')
      else push_source_block_loop rs_fec_dec adus False ret)"

definition gst_rs_fec_dec_push_source_block ::
    "GstRSFECDec \<Rightarrow> GstRSFECDecSourceBlock \<Rightarrow> GstFlowReturn \<times> GstRSFECDec" where
  "gst_rs_fec_dec_push_source_block rs_fec_dec source_block =
     push_source_block_loop
       (gst_rs_fec_dec_push_segment (gst_rs_fec_dec_push_stream_start rs_fec_dec))
       (take (num_source_symbols rs_fec_dec) (output_adu_table source_block)) True GST_FLOW_OK"

definition gst_rs_fec_dec_compare_source_blocks ::
    "GstRSFECDecSourceBlock \<Rightarrow> GstRSFECDecSourceBlock \<Rightarrow> int" where
  "gst_rs_fec_dec_compare_source_blocks first second =
     (if block_nr first < block_nr second then - 1
      else (if block_nr first > block_nr second then 1 else 0))"

text \<open>
  GLib's \<open>g_slist_sort\<close> is a stable sort driven by the comparison function; the model is
  a stable insertion sort with the same comparison.
\<close>

fun insert_sorted :: "('a \<Rightarrow> 'a \<Rightarrow> int) \<Rightarrow> 'a \<Rightarrow> 'a list \<Rightarrow> 'a list" where
  "insert_sorted cmp x [] = [x]"
| "insert_sorted cmp x (y # ys) =
     (if cmp x y \<le> 0 then x # y # ys else y # insert_sorted cmp x ys)"

definition g_slist_sort :: "'a list \<Rightarrow> ('a \<Rightarrow> 'a \<Rightarrow> int) \<Rightarrow> 'a list" where
  "g_slist_sort xs cmp = foldr (insert_sorted cmp) xs []"

section \<open>Decoder: processing a source block\<close>

definition gst_rs_fec_dec_create_openfec_session :: "GstRSFECDec \<Rightarrow> nat \<Rightarrow> bool \<times> GstRSFECDec" where
  "gst_rs_fec_dec_create_openfec_session rs_fec_dec symbol_length =
     (let (status, lib) = of_invoke (openfec rs_fec_dec) OF_create_codec_instance
      in if status \<noteq> OF_STATUS_OK
         then (False, CHECK_IF_FATAL_ERROR (rs_fec_dec\<lparr>openfec := lib\<rparr>) status)
         else
           (let (status', lib') = of_invoke lib
                  (OF_set_fec_parameters (num_source_symbols rs_fec_dec)
                     (num_repair_symbols rs_fec_dec) symbol_length)
            in if status' \<noteq> OF_STATUS_OK
               then (False, CHECK_IF_FATAL_ERROR
                       (rs_fec_dec\<lparr>openfec := snd (of_invoke lib' OF_release_codec_instance)\<rparr>) status')
               else (True,
                     if encoding_symbol_length rs_fec_dec \<noteq> symbol_length
                     then rs_fec_dec\<lparr>openfec := lib', encoding_symbol_length := symbol_length\<rparr>
                     else rs_fec_dec\<lparr>openfec := lib'\<rparr>)))"

text \<open>
  First loop of the general case: every received source packet is turned back into its
  ADUI and entered in the received-symbol table; without sorting its output slot is
  cleared, the ADU having been pushed on arrival.
\<close>

fun process_source_packets ::
    "GstRSFECDec \<Rightarrow> nat \<Rightarrow> GstBuffer list \<Rightarrow> GstBuffer option list \<Rightarrow> GstBuffer option list
      \<Rightarrow> fault + (GstBuffer option list \<times> GstBuffer option list)" where
  "process_source_packets rs_fec_dec symbol_length [] received out = Inr (received, out)"
| "process_source_packets rs_fec_dec symbol_length (fec_source_packet # node) received out =
     (let esi = snd (gst_rs_fec_dec_source_packet_read_payload_id fec_source_packet);
          adu_length = length fec_source_packet - 6
      in if \<not> esi < num_source_symbols rs_fec_dec then Inl AssertionFailed
         else if \<not> (adu_length + 3) \<le> symbol_length then Inl AssertionFailed
         else (case out ! esi of
                 None \<Rightarrow> Inl NullDereference
               | Some adu \<Rightarrow>
                   process_source_packets rs_fec_dec symbol_length node
                     (received[esi := Some (adui 0 adu_length adu symbol_length)])
                     (if \<not> sort_output rs_fec_dec then out[esi := None] else out)))"

text \<open>Second loop: every repair packet contributes the bytes after its payload ID.\<close>

fun process_repair_packets ::
    "GstRSFECDec \<Rightarrow> GstBuffer list \<Rightarrow> nat \<Rightarrow> GstBuffer option list \<Rightarrow> fault + GstBuffer option list" where
  "process_repair_packets rs_fec_dec [] node_count received = Inr received"
| "process_repair_packets rs_fec_dec (fec_repair_packet # node) node_count received =
     (if \<not> node_count < num_repair_symbols rs_fec_dec then Inl AssertionFailed
      else
        (let esi = snd (gst_rs_fec_dec_repair_packet_read_payload_id fec_repair_packet)
         in if \<not> (esi \<ge> num_source_symbols rs_fec_dec \<and> esi < num_encoding_symbols rs_fec_dec)
            then Inl AssertionFailed
            else process_repair_packets rs_fec_dec node (node_count + 1)
                   (received[esi := Some (drop 6 fec_repair_packet)])))"

text \<open>
  Output loop over the ESIs \<open>0 .. k-1\<close>: each source symbol that was not received is taken
  from the recovered table. The result tells whether the loop ran to its end (otherwise
  the code jumps to \<open>cleanup\<close> without marking the block complete).
\<close>

fun process_recovered_symbols ::
    "GstRSFECDec \<Rightarrow> GstBuffer option list \<Rightarrow> GstBuffer option list \<Rightarrow> nat list \<Rightarrow> GstBuffer option list
      \<Rightarrow> fault + (bool \<times> GstFlowReturn \<times> GstRSFECDec \<times> GstBuffer option list)" where
  "process_recovered_symbols rs_fec_dec received recovered [] out =
     Inr (True, GST_FLOW_OK, rs_fec_dec, out)"
| "process_recovered_symbols rs_fec_dec received recovered (esi # esis) out =
     (if received ! esi \<noteq> None
      then process_recovered_symbols rs_fec_dec received recovered esis out
      else
        (case (if esi < length recovered then recovered ! esi else None) of
           None \<Rightarrow> Inl AssertionFailed
         | Some recovered_sym_memblock \<Rightarrow>
             if length recovered_sym_memblock < 3 then Inl OutOfBounds
             else
               (let adu_flow = unat (recovered_sym_memblock ! 0);
                    adu_length = unat (push_bit 8 (ucast (recovered_sym_memblock ! 1) :: guint)
                                   OR (ucast (recovered_sym_memblock ! 2) :: guint))
                in if adu_flow \<noteq> 0
                   then process_recovered_symbols
                          (rs_fec_dec\<lparr>messages := messages rs_fec_dec @
                             [ELEMENT_WARNING ''multiple ADU flows are currently not supported'']\<rparr>)
                          received recovered esis out
                   else if length recovered_sym_memblock < 3 + adu_length then Inl OutOfBounds
                   else
                     (let adu = take adu_length (drop 3 recovered_sym_memblock)
                      in if sort_output rs_fec_dec
                         then process_recovered_symbols rs_fec_dec received recovered esis
                                (out[esi := Some adu])
                         else
                           (let (ret, rs_fec_dec') = gst_rs_fec_dec_push_adu rs_fec_dec adu
                            in if ret \<noteq> GST_FLOW_OK
                               then Inr (False, ret, rs_fec_dec', out[esi := None])
                               else process_recovered_symbols rs_fec_dec' received recovered esis
                                      (out[esi := None]))))))"

text \<open>
  The \<open>cleanup\<close> label: the session is released; when the release fails the code assigns
  \<open>FALSE\<close> to the flow return, which is the value of \<open>GST_FLOW_OK\<close>.
\<close>

definition process_source_block_cleanup :: "GstRSFECDec \<Rightarrow> GstFlowReturn \<Rightarrow> GstFlowReturn \<times> GstRSFECDec" where
  "process_source_block_cleanup rs_fec_dec ret =
     (let (status, lib) = of_invoke (openfec rs_fec_dec) OF_release_codec_instance;
          rs_fec_dec' = rs_fec_dec\<lparr>openfec := lib\<rparr>
      in if status \<noteq> OF_STATUS_OK
         then (GST_FLOW_OK, CHECK_IF_FATAL_ERROR rs_fec_dec' status)
         else (ret, rs_fec_dec'))"

definition of_step :: "GstRSFECDec \<Rightarrow> of_call \<Rightarrow> of_status_t \<times> GstRSFECDec" where
  "of_step rs_fec_dec c =
     (let (status, lib) = of_invoke (openfec rs_fec_dec) c
      in (status, rs_fec_dec\<lparr>openfec := lib\<rparr>))"

definition process_source_block_failed ::
    "GstRSFECDec \<Rightarrow> of_status_t \<Rightarrow> GstRSFECDecSourceBlock
      \<Rightarrow> fault + (GstFlowReturn \<times> GstRSFECDec \<times> GstRSFECDecSourceBlock)" where
  "process_source_block_failed rs_fec_dec status source_block =
     (let (ret, rs_fec_dec') =
            process_source_block_cleanup (CHECK_IF_FATAL_ERROR rs_fec_dec status) GST_FLOW_ERROR
      in Inr (ret, rs_fec_dec', source_block))"

definition gst_rs_fec_dec_process_source_block ::
    "GstRSFECDec \<Rightarrow> GstRSFECDecSourceBlock
      \<Rightarrow> fault + (GstFlowReturn \<times> GstRSFECDec \<times> GstRSFECDecSourceBlock)" where
  "gst_rs_fec_dec_process_source_block rs_fec_dec source_block =
     (if num_repair_packets source_block = 0
      then (if num_source_packets source_block \<noteq> num_source_symbols rs_fec_dec
            then Inl AssertionFailed
            else Inr (GST_FLOW_OK, rs_fec_dec, source_block\<lparr>is_complete := True\<rparr>))
      else
        (case repair_packets source_block of
           [] \<Rightarrow> Inl NullDereference
         | first_repair # _ \<Rightarrow>
            (let symbol_length = length first_repair - 6;
                 (session, d1) = gst_rs_fec_dec_create_openfec_session rs_fec_dec symbol_length
             in if \<not> session then Inr (GST_FLOW_ERROR, d1, source_block)
                else
                  (case process_source_packets d1 symbol_length (source_packets source_block)
                          (replicate (num_encoding_symbols d1) None) (output_adu_table source_block) of
                     Inl f \<Rightarrow> Inl f
                   | Inr (received1, out1) \<Rightarrow>
                      (case process_repair_packets d1 (repair_packets source_block) 0 received1 of
                         Inl f \<Rightarrow> Inl f
                       | Inr received \<Rightarrow>
                          (let sb1 = source_block\<lparr>output_adu_table := out1\<rparr>;
                               (st2, d2) = of_step d1 (OF_set_available_symbols received)
                           in if st2 \<noteq> OF_STATUS_OK then process_source_block_failed d2 st2 sb1
                              else
                                (let (st3, d3) = of_step d2 OF_finish_decoding
                                 in if st3 \<noteq> OF_STATUS_OK then process_source_block_failed d3 st3 sb1
                                    else
                                      (let (st4, d4) = of_step d3 OF_get_source_symbols_tab
                                       in if st4 \<noteq> OF_STATUS_OK
                                          then process_source_block_failed d4 st4 sb1
                                          else
                                            (case process_recovered_symbols d4 received
                                                    (of_source_symbols (openfec d4) (of_calls (openfec d4)))
                                                    [0 ..< num_source_symbols d4] out1 of
                                               Inl f \<Rightarrow> Inl f
                                             | Inr (finished, ret, d5, out2) \<Rightarrow>
                                                (let (ret', d6) = process_source_block_cleanup d5 ret
                                                 in Inr (ret', d6,
                                                         source_block\<lparr>output_adu_table := out2,
                                                           is_complete := (finished \<or> is_complete source_block)\<rparr>)))))))))))"

section \<open>Decoder: pruning, draining, flushing\<close>

fun push_pruned_blocks ::
    "GstRSFECDec \<Rightarrow> GstRSFECDecSourceBlock list \<Rightarrow> GstFlowReturn \<Rightarrow> fault + (GstFlowReturn \<times> GstRSFECDec)" where
  "push_pruned_blocks rs_fec_dec [] ret = Inr (ret, rs_fec_dec)"
| "push_pruned_blocks rs_fec_dec (source_block # node) ret =
     (if \<not> sort_output rs_fec_dec then Inl AssertionFailed
      else if ret = GST_FLOW_OK
      then (let (ret', rs_fec_dec') = gst_rs_fec_dec_push_source_block rs_fec_dec source_block
            in push_pruned_blocks rs_fec_dec' node ret')
      else push_pruned_blocks rs_fec_dec node ret)"

definition gst_rs_fec_dec_prune_source_block_table ::
    "GstRSFECDec \<Rightarrow> guint \<Rightarrow> fault + (GstFlowReturn \<times> GstRSFECDec)" where
  "gst_rs_fec_dec_prune_source_block_table rs_fec_dec source_block_nr =
     (if first_pruning rs_fec_dec
      then Inr (GST_FLOW_OK,
                rs_fec_dec\<lparr>most_recent_block_nr := source_block_nr, first_pruning := False\<rparr>)
      else if source_block_nr \<noteq> most_recent_block_nr rs_fec_dec
      then
        (if gst_rs_fec_dec_is_source_block_nr_newer source_block_nr (most_recent_block_nr rs_fec_dec)
         then
           (let d1 = rs_fec_dec\<lparr>most_recent_block_nr := source_block_nr\<rparr>;
                too_old = (\<lambda>source_block.
                   \<not> gst_rs_fec_dec_is_source_block_nr_recent_enough (block_nr source_block)
                        (most_recent_block_nr d1) (max_source_block_age d1));
                pruned_block_list =
                   (if sort_output d1
                    then rev (filter too_old (map snd (source_block_table d1))) else []);
                d2 = d1\<lparr>source_block_table :=
                          filter (\<lambda>entry. \<not> too_old (snd entry)) (source_block_table d1)\<rparr>;
                pruned_block_list' =
                   (if pruned_block_list \<noteq> []
                    then g_slist_sort pruned_block_list gst_rs_fec_dec_compare_source_blocks
                    else pruned_block_list)
            in push_pruned_blocks d2 pruned_block_list' GST_FLOW_OK)
         else Inr (GST_FLOW_OK, rs_fec_dec))
      else Inr (GST_FLOW_OK, rs_fec_dec))"

fun push_drained_blocks ::
    "GstRSFECDec \<Rightarrow> GstRSFECDecSourceBlock list \<Rightarrow> GstFlowReturn \<Rightarrow> GstFlowReturn \<times> GstRSFECDec" where
  "push_drained_blocks rs_fec_dec [] ret = (ret, rs_fec_dec)"
| "push_drained_blocks rs_fec_dec (source_block # node) ret =
     (if ret = GST_FLOW_OK
      then (let (ret', rs_fec_dec') = gst_rs_fec_dec_push_source_block rs_fec_dec source_block
            in push_drained_blocks rs_fec_dec' node ret')
      else push_drained_blocks rs_fec_dec node ret)"

definition gst_rs_fec_dec_drain_source_block_table :: "GstRSFECDec \<Rightarrow> GstFlowReturn \<times> GstRSFECDec" where
  "gst_rs_fec_dec_drain_source_block_table rs_fec_dec =
     (let drain_block_list = rev (map snd (source_block_table rs_fec_dec));
          d1 = rs_fec_dec\<lparr>source_block_table := []\<rparr>;
          drain_block_list' =
             (if drain_block_list \<noteq> []
              then g_slist_sort drain_block_list gst_rs_fec_dec_compare_source_blocks
              else drain_block_list)
      in push_drained_blocks d1 drain_block_list' GST_FLOW_OK)"

definition gst_rs_fec_dec_reset_states :: "GstRSFECDec \<Rightarrow> GstRSFECDec" where
  "gst_rs_fec_dec_reset_states rs_fec_dec =
     rs_fec_dec\<lparr>first_adu := True, first_pruning := True, segment_started := False,
                fecsource_eos := False, fecrepair_eos := False\<rparr>"

definition gst_rs_fec_dec_flush :: "GstRSFECDec \<Rightarrow> GstRSFECDec" where
  "gst_rs_fec_dec_flush rs_fec_dec =
     gst_rs_fec_dec_reset_states (rs_fec_dec\<lparr>source_block_table := []\<rparr>)"

section \<open>Decoder: inserting a packet\<close>

text \<open>
  The tail of \<open>gst_rs_fec_dec_insert_fec_packet\<close>, reached once the packet has been added
  to its block: the recoverability test, processing, removal of the block when sorting
  is disabled, and pruning keyed on the packet's block number.
\<close>

definition insert_process_and_prune ::
    "GstRSFECDec \<Rightarrow> GstRSFECDecSourceBlock \<Rightarrow> guint \<Rightarrow> fault + (GstFlowReturn \<times> GstRSFECDec)" where
  "insert_process_and_prune rs_fec_dec source_block source_block_nr =
     (if gst_rs_fec_dec_can_source_block_be_processed rs_fec_dec source_block
      then
        (case gst_rs_fec_dec_process_source_block
                (rs_fec_dec\<lparr>processing_log := processing_log rs_fec_dec @ [block_nr source_block]\<rparr>)
                source_block of
           Inl f \<Rightarrow> Inl f
         | Inr (ret, d', source_block') \<Rightarrow>
            (let d'' = (if \<not> sort_output d'
                        then d'\<lparr>source_block_table :=
                                  AList.delete source_block_nr (source_block_table d')\<rparr>
                        else store_source_block d' source_block')
             in if ret = GST_FLOW_OK
                then gst_rs_fec_dec_prune_source_block_table d'' source_block_nr
                else Inr (ret, d'')))
      else gst_rs_fec_dec_prune_source_block_table rs_fec_dec source_block_nr)"

text \<open>
  A packet shorter than a payload ID makes the readers reach outside the buffer, and a
  source packet whose ESI is not below the size of the output table is written outside
  that table; both are faults of the model.
\<close>

definition gst_rs_fec_dec_insert_fec_packet ::
    "GstRSFECDec \<Rightarrow> GstBuffer \<Rightarrow> bool \<Rightarrow> fault + (GstFlowReturn \<times> GstRSFECDec)" where
  "gst_rs_fec_dec_insert_fec_packet rs_fec_dec fec_packet is_source_packet =
     (if length fec_packet < 6 then Inl OutOfBounds
      else
        (let (source_block_nr, esi) =
               (if is_source_packet
                then gst_rs_fec_dec_source_packet_read_payload_id fec_packet
                else gst_rs_fec_dec_repair_packet_read_payload_id fec_packet);
             (source_block, d1) =
               (case gst_rs_fec_dec_fetch_source_block rs_fec_dec source_block_nr of
                  None \<Rightarrow> gst_rs_fec_dec_create_source_block rs_fec_dec source_block_nr
                | Some sb \<Rightarrow> (sb, rs_fec_dec))
         in if \<not> gst_rs_fec_dec_is_source_block_nr_recent_enough source_block_nr
                    (most_recent_block_nr d1) (max_source_block_age d1)
            then Inr (GST_FLOW_OK, d1)
            else if is_complete source_block then Inr (GST_FLOW_OK, d1)
            else if SOURCE_BLOCK_IS_FLAG_SET source_block esi then Inr (GST_FLOW_OK, d1)
            else
              (let sb1 = SOURCE_BLOCK_SET_FLAG source_block esi
               in if is_source_packet
                  then
                    (let sb2 = sb1\<lparr>source_packets := fec_packet # source_packets sb1,
                                   num_source_packets := num_source_packets sb1 + 1\<rparr>;
                         adu_length = length fec_packet - 6;
                         adu = take adu_length fec_packet
                     in if \<not> esi < length (output_adu_table sb2) then Inl OutOfBounds
                        else
                          (let sb3 = sb2\<lparr>output_adu_table := (output_adu_table sb2)[esi := Some adu]\<rparr>;
                               d2 = store_source_block d1 sb3
                           in if \<not> sort_output d2
                              then
                                (let (ret, d3) = gst_rs_fec_dec_push_adu d2 adu
                                 in if ret \<noteq> GST_FLOW_OK then Inr (ret, d3)
                                    else insert_process_and_prune d3 sb3 source_block_nr)
                              else insert_process_and_prune d2 sb3 source_block_nr))
                  else
                    (let sb2 = sb1\<lparr>repair_packets := fec_packet # repair_packets sb1,
                                   num_repair_packets := num_repair_packets sb1 + 1\<rparr>
                     in insert_process_and_prune (store_source_block d1 sb2) sb2 source_block_nr))))"

section \<open>Encoder (gstrsfecenc.c)\<close>

text \<open>
  \<open>GstRSFECEnc\<close>. Fields that also exist in the decoder carry the prefix \<open>enc_\<close>.
  \<open>encoding_symbol_table\<close> holds the \<open>k\<close> source symbols handed to OpenFEC.
\<close>

record GstRSFECEnc =
  enc_num_source_symbols :: nat
  enc_num_repair_symbols :: nat
  enc_num_encoding_symbols :: nat
  cur_source_block_nr :: guint
  first_source_packet :: bool
  first_repair_packet :: bool
  enc_encoding_symbol_length :: nat
  encoding_symbol_table :: "GstBuffer list"
  adu_table :: "GstBuffer option list"
  cur_num_adus :: nat
  cur_max_adu_length :: nat
  cur_num_fec_repair_packets :: nat
  enc_segment_started :: bool
  enc_stream_started :: bool
  eos_received :: bool
  enc_downstream :: Downstream
  enc_openfec :: OpenFEC
  enc_messages :: "element_message list"

text \<open>
  \<open>gst_rs_fec_enc_init\<close> followed by the table allocation of \<open>gst_rs_fec_enc_init_openfec\<close>,
  for the configured numbers of source and repair symbols.
\<close>

definition gst_rs_fec_enc_init :: "nat \<Rightarrow> nat \<Rightarrow> Downstream \<Rightarrow> OpenFEC \<Rightarrow> GstRSFECEnc" where
  "gst_rs_fec_enc_init k r ds lib =
     \<lparr>enc_num_source_symbols = k, enc_num_repair_symbols = r, enc_num_encoding_symbols = k + r,
      cur_source_block_nr = 0, first_source_packet = True, first_repair_packet = True,
      enc_encoding_symbol_length = 0, encoding_symbol_table = [],
      adu_table = replicate k None, cur_num_adus = 0, cur_max_adu_length = 0,
      cur_num_fec_repair_packets = 0, enc_segment_started = False, enc_stream_started = False,
      eos_received = False, enc_downstream = ds, enc_openfec = lib, enc_messages = []\<rparr>"

definition ENC_CHECK_IF_FATAL_ERROR :: "GstRSFECEnc \<Rightarrow> of_status_t \<Rightarrow> GstRSFECEnc" where
  "ENC_CHECK_IF_FATAL_ERROR elem status =
     (if status = OF_STATUS_FATAL_ERROR
      then elem\<lparr>enc_messages := enc_messages elem @ [ELEMENT_ERROR ''OpenFEC reports fatal error'']\<rparr>
      else elem)"

definition gst_rs_fec_enc_configure_fec :: "GstRSFECEnc \<Rightarrow> nat \<Rightarrow> bool \<times> GstRSFECEnc" where
  "gst_rs_fec_enc_configure_fec rs_fec_enc symbol_length =
     (if enc_encoding_symbol_length rs_fec_enc = symbol_length then (True, rs_fec_enc)
      else
        (let (status, lib) = of_invoke (enc_openfec rs_fec_enc)
               (OF_set_fec_parameters (enc_num_source_symbols rs_fec_enc)
                  (enc_num_repair_symbols rs_fec_enc) symbol_length);
             e1 = rs_fec_enc\<lparr>enc_openfec := lib\<rparr>
         in if status \<noteq> OF_STATUS_OK then (False, ENC_CHECK_IF_FATAL_ERROR e1 status)
            else (True, e1\<lparr>enc_encoding_symbol_length := symbol_length\<rparr>)))"

definition gst_rs_fec_enc_insert_adu :: "GstRSFECEnc \<Rightarrow> GstBuffer \<Rightarrow> nat \<Rightarrow> fault + GstRSFECEnc" where
  "gst_rs_fec_enc_insert_adu rs_fec_enc adu esi =
     (if \<not> esi < length (adu_table rs_fec_enc) then Inl OutOfBounds
      else Inr (rs_fec_enc\<lparr>cur_max_adu_length := max (length adu) (cur_max_adu_length rs_fec_enc),
                           adu_table := (adu_table rs_fec_enc)[esi := Some adu]\<rparr>))"

definition gst_rs_fec_enc_push_adu :: "GstRSFECEnc \<Rightarrow> GstBuffer \<Rightarrow> nat \<Rightarrow> GstFlowReturn \<times> GstRSFECEnc" where
  "gst_rs_fec_enc_push_adu rs_fec_enc adu esi =
     (let source_block_nr = cur_source_block_nr rs_fec_enc;
          fec_source_packet =
            adu @ fec_payload_id source_block_nr esi (enc_num_source_symbols rs_fec_enc);
          (ret, ds) = gst_pad_push (enc_downstream rs_fec_enc) FECSOURCE fec_source_packet
      in (ret, rs_fec_enc\<lparr>first_source_packet := False, enc_downstream := ds\<rparr>))"

definition gst_rs_fec_enc_flush_all_adus :: "GstRSFECEnc \<Rightarrow> GstRSFECEnc" where
  "gst_rs_fec_enc_flush_all_adus rs_fec_enc =
     (if cur_num_adus rs_fec_enc = 0 then rs_fec_enc
      else rs_fec_enc\<lparr>adu_table :=
               map (\<lambda>_. None) (take (enc_num_source_symbols rs_fec_enc) (adu_table rs_fec_enc))
                 @ drop (enc_num_source_symbols rs_fec_enc) (adu_table rs_fec_enc),
             cur_num_adus := 0\<rparr>)"

definition gst_rs_fec_enc_flush_all_fec_repair_packets :: "GstRSFECEnc \<Rightarrow> GstRSFECEnc" where
  "gst_rs_fec_enc_flush_all_fec_repair_packets rs_fec_enc =
     (if cur_num_fec_repair_packets rs_fec_enc = 0 then rs_fec_enc
      else rs_fec_enc\<lparr>cur_num_fec_repair_packets := 0\<rparr>)"

definition gst_rs_fec_enc_reset_states :: "GstRSFECEnc \<Rightarrow> GstRSFECEnc" where
  "gst_rs_fec_enc_reset_states rs_fec_enc =
     rs_fec_enc\<lparr>cur_max_adu_length := 0, first_source_packet := True, first_repair_packet := True,
                enc_segment_started := False, eos_received := False\<rparr>"

definition gst_rs_fec_enc_flush :: "GstRSFECEnc \<Rightarrow> GstRSFECEnc" where
  "gst_rs_fec_enc_flush rs_fec_enc =
     gst_rs_fec_enc_reset_states
       (gst_rs_fec_enc_flush_all_fec_repair_packets (gst_rs_fec_enc_flush_all_adus rs_fec_enc))"

section \<open>Encoder: processing a source block\<close>

text \<open>
  The loop that turns the \<open>k\<close> stored ADUs into ADUIs. It returns the source symbols and
  the decremented ADU counter.
\<close>

fun build_aduis :: "nat \<Rightarrow> GstBuffer option list \<Rightarrow> nat \<Rightarrow> fault + (GstBuffer list \<times> nat)" where
  "build_aduis symbol_length [] num_adus = Inr ([], num_adus)"
| "build_aduis symbol_length (entry # entries) num_adus =
     (if \<not> num_adus > 0 then Inl AssertionFailed
      else
        (case entry of
           None \<Rightarrow> Inl NullDereference
         | Some adu \<Rightarrow>
             if \<not> (length adu + 3) \<le> symbol_length then Inl AssertionFailed
             else
               (case build_aduis symbol_length entries (num_adus - 1) of
                  Inl f \<Rightarrow> Inl f
                | Inr (symbols, num_adus') \<Rightarrow>
                    Inr (adui 0 (length adu) adu symbol_length # symbols, num_adus'))))"

text \<open>
  The part of \<open>gst_rs_fec_enc_process_source_block\<close> guarded by \<open>num_repair_symbols > 0\<close>:
  reconfiguration and ADUI construction. The Boolean of the result is \<open>False\<close> when the
  code jumps to \<open>cleanup\<close>.
\<close>

definition prepare_source_symbols ::
    "GstRSFECEnc \<Rightarrow> nat \<Rightarrow> fault + (bool \<times> GstFlowReturn \<times> GstRSFECEnc)" where
  "prepare_source_symbols rs_fec_enc symbol_length =
     (if enc_num_repair_symbols rs_fec_enc > 0
      then
        (let (ok, e1) = gst_rs_fec_enc_configure_fec rs_fec_enc symbol_length
         in if \<not> ok then Inr (False, GST_FLOW_ERROR, e1)
            else
              (case build_aduis symbol_length
                      (take (enc_num_source_symbols e1) (adu_table e1)) (cur_num_adus e1) of
                 Inl f \<Rightarrow> Inl f
               | Inr (symbols, num_adus') \<Rightarrow>
                   Inr (True, GST_FLOW_OK,
                        e1\<lparr>encoding_symbol_table := symbols,
                           adu_table := map (\<lambda>_. None) (take (enc_num_source_symbols e1) (adu_table e1))
                                          @ drop (enc_num_source_symbols e1) (adu_table e1),
                           cur_num_adus := num_adus'\<rparr>)))
      else Inr (True, GST_FLOW_OK, rs_fec_enc))"

definition push_start_events :: "GstRSFECEnc \<Rightarrow> GstRSFECEnc" where
  "push_start_events rs_fec_enc =
     (if \<not> enc_segment_started rs_fec_enc
      then
        (let ds0 = enc_downstream rs_fec_enc;
             ds1 = (if \<not> enc_stream_started rs_fec_enc
                    then gst_pad_push_event
                           (gst_pad_push_event ds0 FECSOURCE GST_EVENT_STREAM_START)
                           FECSOURCE GST_EVENT_CAPS
                    else ds0);
             ds2 = gst_pad_push_event ds1 FECSOURCE GST_EVENT_SEGMENT;
             ds3 = (if \<not> enc_stream_started rs_fec_enc
                    then gst_pad_push_event
                           (gst_pad_push_event ds2 FECREPAIR GST_EVENT_STREAM_START)
                           FECREPAIR GST_EVENT_CAPS
                    else ds2);
             ds4 = gst_pad_push_event ds3 FECREPAIR GST_EVENT_SEGMENT
         in rs_fec_enc\<lparr>enc_downstream := ds4, enc_segment_started := True,
                        enc_stream_started := True\<rparr>)
      else rs_fec_enc)"

text \<open>
  The repair packet buffer has room for the payload ID and exactly one encoding symbol,
  into which OpenFEC writes the repair symbol.
\<close>

definition repair_symbol_bytes :: "nat \<Rightarrow> GstBuffer \<Rightarrow> GstBuffer" where
  "repair_symbol_bytes symbol_length symbol = take symbol_length (symbol @ replicate symbol_length 0)"

fun push_repair_packets ::
    "GstRSFECEnc \<Rightarrow> guint \<Rightarrow> nat \<Rightarrow> nat list \<Rightarrow> fault + (bool \<times> GstFlowReturn \<times> GstRSFECEnc)" where
  "push_repair_packets rs_fec_enc source_block_nr symbol_length [] =
     Inr (True, GST_FLOW_OK, rs_fec_enc)"
| "push_repair_packets rs_fec_enc source_block_nr symbol_length (i # is) =
     (let esi = i + enc_num_source_symbols rs_fec_enc;
          (status, lib) = of_invoke (enc_openfec rs_fec_enc)
             (OF_build_repair_symbol (encoding_symbol_table rs_fec_enc) esi);
          e1 = rs_fec_enc\<lparr>enc_openfec := lib\<rparr>
      in if status \<noteq> OF_STATUS_OK
         then Inr (False, GST_FLOW_ERROR, ENC_CHECK_IF_FATAL_ERROR e1 status)
         else
           (let fec_repair_packet =
                  fec_payload_id source_block_nr esi (enc_num_source_symbols e1)
                    @ repair_symbol_bytes symbol_length (of_repair_symbol lib (of_calls lib))
            in if \<not> cur_num_fec_repair_packets e1 > 0 then Inl AssertionFailed
               else
                 (let e2 = e1\<lparr>cur_num_fec_repair_packets := cur_num_fec_repair_packets e1 - 1,
                               first_repair_packet := False\<rparr>;
                      (ret, ds) = gst_pad_push (enc_downstream e2) FECREPAIR fec_repair_packet;
                      e3 = e2\<lparr>enc_downstream := ds\<rparr>
                  in if ret \<noteq> GST_FLOW_OK then Inr (False, ret, e3)
                     else push_repair_packets e3 source_block_nr symbol_length is)))"

definition process_source_block_cleanup_enc :: "GstRSFECEnc \<Rightarrow> GstRSFECEnc" where
  "process_source_block_cleanup_enc rs_fec_enc =
     (gst_rs_fec_enc_flush_all_fec_repair_packets
        (gst_rs_fec_enc_flush_all_adus rs_fec_enc))\<lparr>cur_max_adu_length := 0\<rparr>"

definition gst_rs_fec_enc_process_source_block ::
    "GstRSFECEnc \<Rightarrow> fault + (GstFlowReturn \<times> GstRSFECEnc)" where
  "gst_rs_fec_enc_process_source_block rs_fec_enc =
     (let source_block_nr = cur_source_block_nr rs_fec_enc
      in if cur_num_adus rs_fec_enc < enc_num_source_symbols rs_fec_enc
         then Inr (GST_FLOW_OK, rs_fec_enc)
         else
           (let symbol_length = 1 + 2 + cur_max_adu_length rs_fec_enc
            in case prepare_source_symbols rs_fec_enc symbol_length of
                 Inl f \<Rightarrow> Inl f
               | Inr (go_on, ret, e1) \<Rightarrow>
                   if \<not> go_on then Inr (ret, process_source_block_cleanup_enc e1)
                   else
                     (let e2 = push_start_events e1;
                          e3 = e2\<lparr>cur_num_fec_repair_packets := enc_num_repair_symbols e2\<rparr>
                      in case push_repair_packets e3 source_block_nr symbol_length
                                [0 ..< enc_num_repair_symbols e3] of
                           Inl f \<Rightarrow> Inl f
                         | Inr (finished, ret', e4) \<Rightarrow>
                             if \<not> finished then Inr (ret', process_source_block_cleanup_enc e4)
                             else Inr (ret', process_source_block_cleanup_enc
                                         (e4\<lparr>cur_source_block_nr := cur_source_block_nr e4 + 1\<rparr>)))))"

section \<open>Encoder: entry points\<close>

definition gst_rs_fec_enc_sink_chain :: "GstRSFECEnc \<Rightarrow> GstBuffer \<Rightarrow> fault + (GstFlowReturn \<times> GstRSFECEnc)" where
  "gst_rs_fec_enc_sink_chain rs_fec_enc buffer =
     (if eos_received rs_fec_enc then Inr (GST_FLOW_EOS, rs_fec_enc)
      else
        (let bufsize = length buffer
         in if bufsize > 65535
            then Inr (GST_FLOW_ERROR,
                      rs_fec_enc\<lparr>enc_messages := enc_messages rs_fec_enc @
                         [ELEMENT_ERROR ''input buffer too large'']\<rparr>)
            else
              (let esi = cur_num_adus rs_fec_enc;
                   (ret, e1) = gst_rs_fec_enc_push_adu rs_fec_enc buffer esi
               in if ret \<noteq> GST_FLOW_OK then Inr (ret, e1)
                  else
                    (case gst_rs_fec_enc_insert_adu e1 buffer esi of
                       Inl f \<Rightarrow> Inl f
                     | Inr e2 \<Rightarrow>
                         gst_rs_fec_enc_process_source_block
                           (e2\<lparr>cur_num_adus := cur_num_adus e2 + 1\<rparr>)))))"

text \<open>
  The events and state changes that touch the encoder's state: \<open>FLUSH_STOP\<close> and \<open>EOS\<close> on
  the sink pad, and the state changes \<open>READY_TO_PAUSED\<close> and \<open>PAUSED_TO_READY\<close>.
\<close>

datatype enc_op =
    Chain GstBuffer
  | Event_FLUSH_STOP
  | Event_EOS
  | READY_TO_PAUSED
  | PAUSED_TO_READY

definition gst_rs_fec_enc_sink_event_eos :: "GstRSFECEnc \<Rightarrow> GstRSFECEnc" where
  "gst_rs_fec_enc_sink_event_eos rs_fec_enc =
     (let e1 = rs_fec_enc\<lparr>eos_received := True\<rparr>;
          ds = gst_pad_push_event
                 (gst_pad_push_event (enc_downstream e1) FECSOURCE GST_EVENT_EOS)
                 FECREPAIR GST_EVENT_EOS
      in gst_rs_fec_enc_flush_all_fec_repair_packets
           (gst_rs_fec_enc_flush_all_adus (e1\<lparr>enc_downstream := ds\<rparr>)))"

fun enc_step :: "GstRSFECEnc \<Rightarrow> enc_op \<Rightarrow> fault + (GstFlowReturn \<times> GstRSFECEnc)" where
  "enc_step e (Chain buffer) = gst_rs_fec_enc_sink_chain e buffer"
| "enc_step e Event_FLUSH_STOP = Inr (GST_FLOW_OK, gst_rs_fec_enc_flush e)"
| "enc_step e Event_EOS = Inr (GST_FLOW_OK, gst_rs_fec_enc_sink_event_eos e)"
| "enc_step e READY_TO_PAUSED = Inr (GST_FLOW_OK, gst_rs_fec_enc_reset_states e)"
| "enc_step e PAUSED_TO_READY =
     Inr (GST_FLOW_OK, (gst_rs_fec_enc_flush e)\<lparr>enc_stream_started := False\<rparr>)"

fun enc_run :: "GstRSFECEnc \<Rightarrow> enc_op list \<Rightarrow> fault + GstRSFECEnc" where
  "enc_run e [] = Inr e"
| "enc_run e (op # ops) =
     (case enc_step e op of Inl f \<Rightarrow> Inl f | Inr (ret, e') \<Rightarrow> enc_run e' ops)"

text \<open>
  The block number a pushed packet carries, read back with the decoder's own readers:
  source packets travel on the \<open>fecsource\<close> pad, repair packets on the \<open>fecrepair\<close> pad.
\<close>

fun stamped_block_nr :: "GstPadName \<times> pad_item \<Rightarrow> guint option" where
  "stamped_block_nr (FECSOURCE, PadBuffer b) =
     Some (fst (gst_rs_fec_dec_source_packet_read_payload_id b))"
| "stamped_block_nr (FECREPAIR, PadBuffer b) =
     Some (fst (gst_rs_fec_dec_repair_packet_read_payload_id b))"
| "stamped_block_nr _ = None"

definition stamps :: "GstRSFECEnc \<Rightarrow> guint list" where
  "stamps e = List.map_filter stamped_block_nr (pushed (enc_downstream e))"

text \<open>Successive block numbers on the 24-bit circle: each one repeats or follows its predecessor.\<close>

definition succ24 :: "guint \<Rightarrow> guint" where
  "succ24 a = (a + 1) AND 0xFFFFFF"

fun non_decreasing24 :: "guint list \<Rightarrow> bool" where
  "non_decreasing24 [] = True"
| "non_decreasing24 [a] = True"
| "non_decreasing24 (a # b # xs) = ((b = a \<or> b = succ24 a) \<and> non_decreasing24 (b # xs))"

section \<open>Notions used to state the properties\<close>

text \<open>
  The block an arriving packet is directed to: the table entry of its block number, or
  the freshly created block.
\<close>

definition packet_ids :: "GstBuffer \<Rightarrow> bool \<Rightarrow> guint \<times> nat" where
  "packet_ids fec_packet is_source_packet =
     (if is_source_packet
      then gst_rs_fec_dec_source_packet_read_payload_id fec_packet
      else gst_rs_fec_dec_repair_packet_read_payload_id fec_packet)"

definition target_block :: "GstRSFECDec \<Rightarrow> GstBuffer \<Rightarrow> bool \<Rightarrow> GstRSFECDecSourceBlock" where
  "target_block d fec_packet is_source_packet =
     (let source_block_nr = fst (packet_ids fec_packet is_source_packet)
      in case gst_rs_fec_dec_fetch_source_block d source_block_nr of
           None \<Rightarrow> fst (gst_rs_fec_dec_create_source_block d source_block_nr)
         | Some sb \<Rightarrow> sb)"

text \<open>
  A packet is added to its block (bitmask, packet list, counter and, for a source
  packet, output slot) when it passes the age filter and both duplicate checks.
\<close>

definition packet_added :: "GstRSFECDec \<Rightarrow> GstBuffer \<Rightarrow> bool \<Rightarrow> bool" where
  "packet_added d fec_packet is_source_packet =
     (gst_rs_fec_dec_is_source_block_nr_recent_enough (fst (packet_ids fec_packet is_source_packet))
        (most_recent_block_nr d) (max_source_block_age d)
      \<and> \<not> is_complete (target_block d fec_packet is_source_packet)
      \<and> \<not> SOURCE_BLOCK_IS_FLAG_SET (target_block d fec_packet is_source_packet)
            (snd (packet_ids fec_packet is_source_packet)))"

text \<open>
  Without sorting, the ADU of a source packet is pushed as soon as the packet has been
  added; the downstream peer may refuse it.
\<close>

definition immediate_push_refused :: "GstRSFECDec \<Rightarrow> GstBuffer \<Rightarrow> bool \<Rightarrow> bool" where
  "immediate_push_refused d fec_packet is_source_packet =
     (is_source_packet \<and> \<not> sort_output d
      \<and> fst (gst_rs_fec_dec_push_adu d (take (length fec_packet - 6) fec_packet)) \<noteq> GST_FLOW_OK)"

text \<open>
  Two decoder states that differ at most in what the collaborators saw and replied
  (downstream history, OpenFEC history, posted messages), in the cached symbol length
  and in the stream-start and segment flags.
\<close>

definition same_core :: "GstRSFECDec \<Rightarrow> GstRSFECDec \<Rightarrow> bool" where
  "same_core d d' \<longleftrightarrow>
     (\<exists>ds lib msgs len ss sg.
        d' = d\<lparr>downstream := ds, openfec := lib, messages := msgs,
               encoding_symbol_length := len, stream_started := ss, segment_started := sg\<rparr>)"

text \<open>
  The shape every block in the table has: an output table of \<open>k\<close> slots, a bitmask of
  eight words, a source-packet count that is the length of the list, pairwise different
  source ESIs below \<open>k\<close>, each marked in the bitmask and with its ADU in the output slot
  of that ESI.
\<close>

definition source_esi :: "GstBuffer \<Rightarrow> nat" where
  "source_esi fec_source_packet = snd (gst_rs_fec_dec_source_packet_read_payload_id fec_source_packet)"

definition source_block_ok :: "nat \<Rightarrow> GstRSFECDecSourceBlock \<Rightarrow> bool" where
  "source_block_ok k sb \<longleftrightarrow>
     length (output_adu_table sb) = k
     \<and> length (packet_mask sb) = 8
     \<and> num_source_packets sb = length (source_packets sb)
     \<and> distinct (map source_esi (source_packets sb))
     \<and> (\<forall>p \<in> set (source_packets sb).
           6 \<le> length p \<and> source_esi p < k \<and> SOURCE_BLOCK_IS_FLAG_SET sb (source_esi p)
           \<and> output_adu_table sb ! source_esi p = Some (take (length p - 6) p))"

text \<open>
  The block as \<open>gst_rs_fec_dec_insert_fec_packet\<close> leaves it when it adds a source packet
  to it: the ESI's bit set, the packet prepended and counted, and the ADU (the packet
  without its last six bytes) in the output slot of the ESI.
\<close>

definition with_source_packet :: "GstRSFECDecSourceBlock \<Rightarrow> GstBuffer \<Rightarrow> GstRSFECDecSourceBlock" where
  "with_source_packet source_block fec_packet =
     (let esi = source_esi fec_packet;
          sb1 = SOURCE_BLOCK_SET_FLAG source_block esi
      in sb1\<lparr>source_packets := fec_packet # source_packets sb1,
             num_source_packets := num_source_packets sb1 + 1,
             output_adu_table :=
               (output_adu_table sb1)[esi := Some (take (length fec_packet - 6) fec_packet)]\<rparr>)"

text \<open>
  The invariant of the block table: every block that has no repair packets and is not
  complete has the shape above.
\<close>

definition table_ok :: "GstRSFECDec \<Rightarrow> bool" where
  "table_ok d \<longleftrightarrow>
     (\<forall>entry \<in> set (source_block_table d).
        num_repair_packets (snd entry) = 0 \<and> \<not> is_complete (snd entry) \<longrightarrow>
        source_block_ok (num_source_symbols d) (snd entry))"

text \<open>Counting the buffers (not the events) that were pushed on one pad.\<close>

fun is_buffer_on :: "GstPadName \<Rightarrow> GstPadName \<times> pad_item \<Rightarrow> bool" where
  "is_buffer_on pad (pad', PadBuffer b) = (pad' = pad)"
| "is_buffer_on pad (pad', PadEvent ev) = False"

definition buffers_on :: "GstPadName \<Rightarrow> GstRSFECEnc \<Rightarrow> nat" where
  "buffers_on pad e = length (filter (is_buffer_on pad) (pushed (enc_downstream e)))"

text \<open>
  How the stamps pushed so far relate to the encoder's block counter: they never step
  back, and the last one is the counter's 24-bit value or its predecessor.
\<close>

definition stamps_behind_counter :: "GstRSFECEnc \<Rightarrow> bool" where
  "stamps_behind_counter e \<longleftrightarrow>
     non_decreasing24 (stamps e)
     \<and> (stamps e \<noteq> [] \<longrightarrow>
          last (stamps e) = cur_source_block_nr e AND 0xFFFFFF
          \<or> succ24 (last (stamps e)) = cur_source_block_nr e AND 0xFFFFFF)"

section \<open>Well-behaved collaborators used in the examples\<close>

definition accepting_downstream :: Downstream where
  "accepting_downstream = \<lparr>pushed = [], push_reply = (\<lambda>_. GST_FLOW_OK)\<rparr>"

definition working_openfec :: OpenFEC where
  "working_openfec =
     \<lparr>of_calls = [], of_status = (\<lambda>_. OF_STATUS_OK), of_source_symbols = (\<lambda>_. []),
      of_repair_symbol = (\<lambda>_. [])\<rparr>"

text \<open>Running a list of packets through the decoder; the Boolean marks source packets.\<close>

fun dec_run :: "GstRSFECDec \<Rightarrow> (GstBuffer \<times> bool) list \<Rightarrow> fault + GstRSFECDec" where
  "dec_run d [] = Inr d"
| "dec_run d ((fec_packet, is_source_packet) # packets) =
     (case gst_rs_fec_dec_insert_fec_packet d fec_packet is_source_packet of
        Inl f \<Rightarrow> Inl f
      | Inr (ret, d') \<Rightarrow> dec_run d' packets)"

text \<open>The buffers handed to the decoder's source pad, in order.\<close>

definition delivered :: "GstRSFECDec \<Rightarrow> GstBuffer list" where
  "delivered d =
     List.map_filter (\<lambda>item. case item of (SRC, PadBuffer b) \<Rightarrow> Some b | _ \<Rightarrow> None)
       (pushed (downstream d))"

section \<open>Example states\<close>

text \<open>The decoder with its default properties (k = 4, r = 2, maximum age 1, sorted output).\<close>

definition default_decoder :: GstRSFECDec where
  "default_decoder = gst_rs_fec_dec_init accepting_downstream working_openfec"

text \<open>Source packets: one ADU byte followed by the payload ID (block number, ESI, k).\<close>

definition packet_block5_esi0 :: GstBuffer where
  "packet_block5_esi0 = [0x11, 0, 0, 5, 0, 0, 4]"

definition packet_block5_esi1 :: GstBuffer where
  "packet_block5_esi1 = [0x12, 0, 0, 5, 1, 0, 4]"

definition packet_block5_esi2 :: GstBuffer where
  "packet_block5_esi2 = [0x13, 0, 0, 5, 2, 0, 4]"

definition packet_block5_esi3 :: GstBuffer where
  "packet_block5_esi3 = [0x14, 0, 0, 5, 3, 0, 4]"

text \<open>Block 5 as it stands when its fourth source packet has just been added.\<close>

definition block5_all_sources :: GstRSFECDecSourceBlock where
  "block5_all_sources =
     \<lparr>block_nr = 5, packet_mask = [15, 0, 0, 0, 0, 0, 0, 0],
      source_packets = [packet_block5_esi3, packet_block5_esi2, packet_block5_esi1, packet_block5_esi0],
      repair_packets = [], num_source_packets = 4, num_repair_packets = 0,
      output_adu_table = [Some [0x11], Some [0x12], Some [0x13], Some [0x14]],
      is_complete = False\<rparr>"

definition packet_block100_esi0 :: GstBuffer where
  "packet_block100_esi0 = [0x11, 0, 0, 100, 0, 0, 4]"

definition packet_block50_esi0 :: GstBuffer where
  "packet_block50_esi0 = [0x22, 0, 0, 50, 0, 0, 4]"

definition packet_block4194304_esi0 :: GstBuffer where
  "packet_block4194304_esi0 = [0x33, 0x40, 0, 0, 0, 0, 4]"

definition after_packets :: "GstRSFECDec \<Rightarrow> (GstBuffer \<times> bool) list \<Rightarrow> GstRSFECDec" where
  "after_packets d packets = (case dec_run d packets of Inr d' \<Rightarrow> d' | Inl f \<Rightarrow> d)"

text \<open>
  A decoder with one source symbol per block, no repair symbols and maximum age 2, and
  three single-byte source packets of the blocks \<open>2^24-1\<close>, \<open>0\<close> and \<open>2\<close>.
\<close>

definition wrap_decoder :: GstRSFECDec where
  "wrap_decoder =
     foldl gst_rs_fec_dec_set_property default_decoder
       [PROP_NUM_SOURCE_SYMBOLS 1, PROP_NUM_REPAIR_SYMBOLS 0, PROP_MAX_SOURCE_BLOCK_AGE 2]"

definition packet_block16777215 :: GstBuffer where
  "packet_block16777215 = [0xAA, 0xFF, 0xFF, 0xFF, 0, 0, 1]"

definition packet_block0 :: GstBuffer where
  "packet_block0 = [0xBB, 0, 0, 0, 0, 0, 1]"

definition packet_block2 :: GstBuffer where
  "packet_block2 = [0xCC, 0, 0, 2, 0, 0, 1]"

text \<open>
  A decoder with one source symbol per block, no repair symbols and immediate (unsorted)
  output, whose downstream peer refuses every buffer.
\<close>

definition refusing_downstream :: Downstream where
  "refusing_downstream = \<lparr>pushed = [], push_reply = (\<lambda>_. GST_FLOW_ERROR)\<rparr>"

definition immediate_decoder :: GstRSFECDec where
  "immediate_decoder =
     foldl gst_rs_fec_dec_set_property (gst_rs_fec_dec_init refusing_downstream working_openfec)
       [PROP_NUM_SOURCE_SYMBOLS 1, PROP_NUM_REPAIR_SYMBOLS 0, PROP_SORT_OUTPUT False]"

text \<open>The encoder with the default numbers of symbols (k = 4, r = 2).\<close>

definition default_encoder :: GstRSFECEnc where
  "default_encoder = gst_rs_fec_enc_init 4 2 accepting_downstream working_openfec"

definition enc_after :: "GstRSFECEnc \<Rightarrow> enc_op list \<Rightarrow> GstRSFECEnc" where
  "enc_after e ops = (case enc_run e ops of Inr e' \<Rightarrow> e' | Inl f \<Rightarrow> e)"

section \<open>Block-number ageing: circular ranges\<close>

lemma and_mask24_uint: "uint ((x::guint) AND 16777215) = uint x mod 16777216"
proof -
  have "(x AND 16777215) = take_bit 24 x"
    by (simp add: take_bit_eq_mask mask_eq_exp_minus_1)
  then show ?thesis by (simp add: take_bit_eq_mod uint_mod)
qed

lemma mask24_lt: "uint ((x::guint) AND 0xFFFFFF) < 16777216"
proof -
  have "uint x mod 16777216 < 16777216" by simp
  then show ?thesis by (simp only: and_mask24_uint)
qed

lemma mod24_small:
  fixes x :: int
  assumes "- 16777216 \<le> x" "x < 16777216"
  shows "x mod 16777216 = (if 0 \<le> x then x else x + 16777216)"
proof (cases "0 \<le> x")
  case True
  then show ?thesis using assms by simp
next
  case False
  have "x mod 16777216 = (x + 16777216) mod 16777216" by simp
  also have "\<dots> = x + 16777216" using assms False by (intro mod_pos_pos_trivial) auto
  finally show ?thesis using False by simp
qed

lemma in_circular_range_reduce:
  "in_circular_range a b c = in_circular_range (a mod 16777216) (b mod 16777216) c"
  by (simp add: in_circular_range_def mod_diff_right_eq mod_diff_left_eq)

lemma circ_int:
  fixes s e c :: int
  assumes "0 \<le> s" "s < 16777216" "0 \<le> e" "e < 16777216" "0 \<le> c" "c < 16777216"
  shows "in_circular_range s e c \<longleftrightarrow>
     (if s < e then s \<le> c \<and> c \<le> e
      else if e < s then c \<le> e \<or> s \<le> c else c = s)"
proof -
  have 1: "(c - s) mod 16777216 = (if 0 \<le> c - s then c - s else c - s + 16777216)"
    using assms by (intro mod24_small) auto
  have 2: "(e - s) mod 16777216 = (if 0 \<le> e - s then e - s else e - s + 16777216)"
    using assms by (intro mod24_small) auto
  show ?thesis
    unfolding in_circular_range_def using assms by (auto simp: 1 2)
qed

lemma check_in_range_uint:
  "gst_rs_fec_dec_check_if_source_block_in_range c s e \<longleftrightarrow>
     (if uint s < uint e then uint s \<le> uint c \<and> uint c \<le> uint e
      else if uint e < uint s then uint c \<le> uint e \<or> uint s \<le> uint c else uint c = uint s)"
  unfolding gst_rs_fec_dec_check_if_source_block_in_range_def
  by (simp add: word_less_def word_le_def word_uint_eq_iff)

lemma recent_enough_circ:
  assumes c: "uint c < 16777216"
  shows "gst_rs_fec_dec_is_source_block_nr_recent_enough c r m \<longleftrightarrow>
     in_circular_range (uint r - (uint m - 1)) (uint r + 2 ^ 22 - 1) (uint c)"
proof -
  let ?s = "(r + 16777216 - (m - 1)) AND 16777215"
  let ?e = "(r + 4194303) AND 16777215"
  have s: "uint ?s = (uint r - (uint m - 1)) mod 16777216"
  proof -
    have "uint ?s = uint (r + 16777216 - (m - 1)) mod 16777216" by (rule and_mask24_uint)
    also have "uint (r + 16777216 - (m - 1)) = (uint r + 16777216 - (uint m - 1)) mod 4294967296"
      by (simp add: uint_word_ariths mod_diff_right_eq mod_diff_left_eq mod_add_left_eq mod_add_right_eq)
    also have "\<dots> mod 16777216 = (uint r + 16777216 - (uint m - 1)) mod 16777216"
      by (rule mod_mod_cancel) simp
    also have "\<dots> = (uint r - (uint m - 1)) mod 16777216"
      by (metis diff_add_eq mod_add_self2)
    finally show ?thesis .
  qed
  have e: "uint ?e = (uint r + 2 ^ 22 - 1) mod 16777216"
  proof -
    have "uint ?e = uint (r + 4194303) mod 16777216" by (rule and_mask24_uint)
    also have "uint (r + 4194303) = (uint r + 4194303) mod 4294967296"
      by (simp add: uint_word_ariths)
    also have "\<dots> mod 16777216 = (uint r + 4194303) mod 16777216"
      by (rule mod_mod_cancel) simp
    finally have "uint ?e = (uint r + 4194303) mod 16777216" .
    moreover have "uint r + 2 ^ 22 - 1 = uint r + 4194303" by simp
    ultimately show ?thesis by (simp only:)
  qed
  have sb: "0 \<le> uint ?s" "uint ?s < 16777216" unfolding s by simp_all
  have eb: "0 \<le> uint ?e" "uint ?e < 16777216" unfolding e by simp_all
  have "gst_rs_fec_dec_is_source_block_nr_recent_enough c r m \<longleftrightarrow>
      gst_rs_fec_dec_check_if_source_block_in_range c ?s ?e"
    by (simp add: gst_rs_fec_dec_is_source_block_nr_recent_enough_def)
  also have "\<dots> \<longleftrightarrow> in_circular_range (uint ?s) (uint ?e) (uint c)"
    unfolding check_in_range_uint
    by (rule circ_int [OF sb(1) sb(2) eb(1) eb(2) uint_ge_0 c, symmetric])
  also have "\<dots> \<longleftrightarrow> in_circular_range (uint r - (uint m - 1)) (uint r + 2 ^ 22 - 1) (uint c)"
    unfolding s e by (rule in_circular_range_reduce [symmetric])
  finally show ?thesis .
qed

lemma newer_arith:
  fixes r c :: int
  assumes "0 \<le> r" "r < 16777216" "0 \<le> c" "c < 16777216"
  shows "(if r + 1 < (r + 4194303) mod 16777216
          then r + 1 \<le> c \<and> c \<le> (r + 4194303) mod 16777216
          else if (r + 4194303) mod 16777216 < r + 1
               then c \<le> (r + 4194303) mod 16777216 \<or> r + 1 \<le> c
               else c = r + 1)
        \<longleftrightarrow> (c - (r + 1)) mod 16777216 \<le> 4194302"
proof -
  have e: "(r + 4194303) mod 16777216 =
      (if r + 4194303 < 16777216 then r + 4194303 else r + 4194303 - 16777216)"
  proof (cases "r + 4194303 < 16777216")
    case True then show ?thesis using assms by simp
  next
    case False
    have "(r + 4194303) mod 16777216 = (r + 4194303 - 16777216) mod 16777216"
      by (simp only: minus_mod_self2)
    also have "\<dots> = r + 4194303 - 16777216"
      using False assms by (intro mod_pos_pos_trivial) auto
    finally show ?thesis using False by simp
  qed
  have a: "(c - (r + 1)) mod 16777216 =
      (if 0 \<le> c - (r + 1) then c - (r + 1) else c - (r + 1) + 16777216)"
    using assms by (intro mod24_small) linarith+
  show ?thesis
    unfolding e a using assms by (auto split: if_splits)
qed

lemma newer_circ:
  assumes r: "uint r < 16777216" and c: "uint c < 16777216"
  shows "gst_rs_fec_dec_is_source_block_nr_newer c r \<longleftrightarrow>
     in_circular_range (uint r + 1) (uint r + 2 ^ 22 - 1) (uint c)"
proof -
  let ?e = "(r + 4194303) AND 16777215"
  have s: "uint (r + 1) = uint r + 1"
    using r by (simp add: uint_word_ariths)
  have "uint ?e = uint (r + 4194303) mod 16777216" by (rule and_mask24_uint)
  also have "uint (r + 4194303) = uint r + 4194303"
    using r by (simp add: uint_word_ariths)
  finally have e: "uint ?e = (uint r + 4194303) mod 16777216" .
  have b: "(uint r + 2 ^ 22 - 1 - (uint r + 1)) mod 2 ^ 24 = (4194302 :: int)" by simp
  have "gst_rs_fec_dec_is_source_block_nr_newer c r \<longleftrightarrow>
      gst_rs_fec_dec_check_if_source_block_in_range c (r + 1) ?e"
    by (simp add: gst_rs_fec_dec_is_source_block_nr_newer_def)
  also have "\<dots> \<longleftrightarrow> (uint c - (uint r + 1)) mod 16777216 \<le> 4194302"
    unfolding check_in_range_uint s e
    by (rule newer_arith [OF uint_ge_0 r uint_ge_0 c])
  also have "\<dots> \<longleftrightarrow> in_circular_range (uint r + 1) (uint r + 2 ^ 22 - 1) (uint c)"
    unfolding in_circular_range_def b by simp
  finally show ?thesis .
qed


text \<open>
  C8. For 24-bit block numbers, the successor of the reference (also across the wrap
  from \<open>2^24-1\<close> to \<open>0\<close>) is newer, the reference itself and its predecessor are not,
  and a candidate is newer exactly when it lies in the circular range
  \<open>[ref+1, ref+2^22-1]\<close>.
\<close>

theorem C8_is_newer:
  assumes r: "uint ref < 2 ^ 24" and c: "uint cand < 2 ^ 24"
  shows "gst_rs_fec_dec_is_source_block_nr_newer ((ref + 1) AND 0xFFFFFF) ref
       \<and> \<not> gst_rs_fec_dec_is_source_block_nr_newer ref ref
       \<and> \<not> gst_rs_fec_dec_is_source_block_nr_newer ((ref - 1) AND 0xFFFFFF) ref
       \<and> (gst_rs_fec_dec_is_source_block_nr_newer cand ref \<longleftrightarrow>
            in_circular_range (uint ref + 1) (uint ref + 2 ^ 22 - 1) (uint cand))"
proof -
  have r': "uint ref < 16777216" and c': "uint cand < 16777216" using r c by simp_all
  have b: "(uint ref + 2 ^ 22 - 1 - (uint ref + 1)) mod 2 ^ 24 = (4194302 :: int)" by simp
  have succ_lt: "uint ((ref + 1) AND 0xFFFFFF) < 16777216" by (rule mask24_lt)
  have pred_lt: "uint ((ref - 1) AND 0xFFFFFF) < 16777216" by (rule mask24_lt)
  have 1: "gst_rs_fec_dec_is_source_block_nr_newer ((ref + 1) AND 0xFFFFFF) ref"
  proof -
    have "uint ((ref + 1) AND 0xFFFFFF) = uint (ref + 1) mod 16777216" by (rule and_mask24_uint)
    also have "uint (ref + 1) = uint ref + 1" using r' by (simp add: uint_word_ariths)
    finally have u: "uint ((ref + 1) AND 0xFFFFFF) = (uint ref + 1) mod 16777216" .
    have "(uint ((ref + 1) AND 0xFFFFFF) - (uint ref + 1)) mod 2 ^ 24 = 0"
      unfolding u by (simp add: mod_diff_left_eq)
    then have "in_circular_range (uint ref + 1) (uint ref + 2 ^ 22 - 1) (uint ((ref + 1) AND 0xFFFFFF))"
      unfolding in_circular_range_def b by simp
    then show ?thesis using newer_circ [OF r' succ_lt] by simp
  qed
  have 2: "\<not> gst_rs_fec_dec_is_source_block_nr_newer ref ref"
  proof -
    have "(uint ref - (uint ref + 1)) mod 2 ^ 24 = (16777215 :: int)" by simp
    then have "\<not> in_circular_range (uint ref + 1) (uint ref + 2 ^ 22 - 1) (uint ref)"
      unfolding in_circular_range_def b by simp
    then show ?thesis using newer_circ [OF r' r'] by simp
  qed
  have 3: "\<not> gst_rs_fec_dec_is_source_block_nr_newer ((ref - 1) AND 0xFFFFFF) ref"
  proof -
    have "uint ((ref - 1) AND 0xFFFFFF) = uint (ref - 1) mod 16777216" by (rule and_mask24_uint)
    also have "uint (ref - 1) = (uint ref - 1) mod 4294967296" by (simp add: uint_word_ariths)
    also have "\<dots> mod 16777216 = (uint ref - 1) mod 16777216" by (rule mod_mod_cancel) simp
    finally have u: "uint ((ref - 1) AND 0xFFFFFF) = (uint ref - 1) mod 16777216" .
    have "(uint ((ref - 1) AND 0xFFFFFF) - (uint ref + 1)) mod 2 ^ 24
            = ((uint ref - 1) - (uint ref + 1)) mod 2 ^ 24"
      unfolding u by (simp add: mod_diff_left_eq)
    also have "\<dots> = 16777214" by simp
    finally have "\<not> in_circular_range (uint ref + 1) (uint ref + 2 ^ 22 - 1) (uint ((ref - 1) AND 0xFFFFFF))"
      unfolding in_circular_range_def b by simp
    then show ?thesis using newer_circ [OF r' pred_lt] by simp
  qed
  from 1 2 3 newer_circ [OF r' c'] show ?thesis by blast
qed

theorem C8_is_newer_witness:
  "uint (16777215 :: guint) < 2 ^ 24 \<and> uint (0 :: guint) < 2 ^ 24
   \<and> gst_rs_fec_dec_is_source_block_nr_newer ((16777215 + 1) AND 0xFFFFFF) 16777215
   \<and> \<not> gst_rs_fec_dec_is_source_block_nr_newer 16777215 16777215
   \<and> \<not> gst_rs_fec_dec_is_source_block_nr_newer ((16777215 - 1) AND 0xFFFFFF) 16777215
   \<and> gst_rs_fec_dec_is_source_block_nr_newer 0 16777215
   \<and> in_circular_range (uint (16777215 :: guint) + 1) (uint (16777215 :: guint) + 2 ^ 22 - 1) (uint (0 :: guint))"
proof -
  have h1: "uint (16777215 :: guint) < 2 ^ 24" by simp
  have h2: "uint (0 :: guint) < 2 ^ 24" by simp
  have n: "gst_rs_fec_dec_is_source_block_nr_newer 0 16777215"
    by (simp add: gst_rs_fec_dec_is_source_block_nr_newer_def
        gst_rs_fec_dec_check_if_source_block_in_range_def)
  from C8_is_newer [OF h1 h2] n h1 h2 show ?thesis by blast
qed

lemma in_circular_range_interval:
  fixes a b c :: int
  assumes "a \<le> b" and "b - a < 2 ^ 24"
  shows "in_circular_range a b c \<longleftrightarrow> (\<exists>n. a \<le> n \<and> n \<le> b \<and> n mod 2 ^ 24 = c mod 2 ^ 24)"
proof
  assume "in_circular_range a b c"
  with assms have le: "(c - a) mod 2 ^ 24 \<le> b - a"
    by (simp add: in_circular_range_def)
  let ?n = "a + (c - a) mod 2 ^ 24"
  have "a \<le> ?n" by simp
  moreover have "?n \<le> b" using le by simp
  moreover have "?n mod 2 ^ 24 = c mod 2 ^ 24"
    by (simp add: mod_add_right_eq)
  ultimately show "\<exists>n. a \<le> n \<and> n \<le> b \<and> n mod 2 ^ 24 = c mod 2 ^ 24" by blast
next
  assume "\<exists>n. a \<le> n \<and> n \<le> b \<and> n mod 2 ^ 24 = c mod 2 ^ 24"
  then obtain n where n: "a \<le> n" "n \<le> b" "n mod 2 ^ 24 = c mod 2 ^ 24" by blast
  have "(c - a) mod 2 ^ 24 = (n - a) mod 2 ^ 24"
    by (rule mod_diff_cong [OF n(3) [symmetric] refl])
  also have "\<dots> = n - a"
    using n assms by (intro mod_pos_pos_trivial) auto
  finally have "(c - a) mod 2 ^ 24 \<le> b - a" using n by simp
  moreover have "(b - a) mod 2 ^ 24 = b - a"
    using assms by (intro mod_pos_pos_trivial) auto
  ultimately show "in_circular_range a b c" by (simp add: in_circular_range_def)
qed

text \<open>
  C9 (amended). With \<open>maxAge = 1\<close> the recency test accepts the reference itself and the
  candidates newer than it and nothing else; the predecessor of the reference is
  rejected. For \<open>1 \<le> maxAge \<le> 2^24 - 2^22 + 1\<close> a candidate (a 24-bit block number) is
  recent enough exactly when it lies in the circular range
  \<open>[ref-(maxAge-1), ref+2^22-1]\<close>, that is, when one of the integers from
  \<open>ref-(maxAge-1)\<close> to \<open>ref+2^22-1\<close> is the candidate modulo \<open>2^24\<close>.
\<close>

theorem C9_is_recent_enough:
  assumes c: "uint cand < 2 ^ 24" and r: "uint ref < 2 ^ 24"
    and m1: "1 \<le> uint max_age" and m2: "uint max_age \<le> 2 ^ 24 - 2 ^ 22 + 1"
  shows "(gst_rs_fec_dec_is_source_block_nr_recent_enough cand ref max_age \<longleftrightarrow>
            in_circular_range (uint ref - (uint max_age - 1)) (uint ref + 2 ^ 22 - 1) (uint cand))
       \<and> (gst_rs_fec_dec_is_source_block_nr_recent_enough cand ref max_age \<longleftrightarrow>
            (\<exists>n. uint ref - (uint max_age - 1) \<le> n \<and> n \<le> uint ref + 2 ^ 22 - 1
                 \<and> n mod 2 ^ 24 = uint cand))
       \<and> (gst_rs_fec_dec_is_source_block_nr_recent_enough cand ref 1 \<longleftrightarrow>
            cand = ref \<or> gst_rs_fec_dec_is_source_block_nr_newer cand ref)
       \<and> (gst_rs_fec_dec_is_source_block_nr_recent_enough cand ref 1 \<longleftrightarrow>
            in_circular_range (uint ref) (uint ref + 2 ^ 22 - 1) (uint cand))
       \<and> \<not> gst_rs_fec_dec_is_source_block_nr_recent_enough ((ref - 1) AND 0xFFFFFF) ref 1"
proof -
  have r': "uint ref < 16777216" and c': "uint cand < 16777216" using r c by simp_all
  have g: "gst_rs_fec_dec_is_source_block_nr_recent_enough cand ref max_age \<longleftrightarrow>
            in_circular_range (uint ref - (uint max_age - 1)) (uint ref + 2 ^ 22 - 1) (uint cand)"
    by (rule recent_enough_circ [OF c'])
  have cm: "uint cand mod 2 ^ 24 = uint cand"
    using c by (intro mod_pos_pos_trivial) auto
  have "in_circular_range (uint ref - (uint max_age - 1)) (uint ref + 2 ^ 22 - 1) (uint cand) \<longleftrightarrow>
      (\<exists>n. uint ref - (uint max_age - 1) \<le> n \<and> n \<le> uint ref + 2 ^ 22 - 1
           \<and> n mod 2 ^ 24 = uint cand mod 2 ^ 24)"
    using m1 m2 by (intro in_circular_range_interval) auto
  with g have g': "gst_rs_fec_dec_is_source_block_nr_recent_enough cand ref max_age \<longleftrightarrow>
            (\<exists>n. uint ref - (uint max_age - 1) \<le> n \<and> n \<le> uint ref + 2 ^ 22 - 1
                 \<and> n mod 2 ^ 24 = uint cand)"
    by (simp only: cm)
  have one: "gst_rs_fec_dec_is_source_block_nr_recent_enough x ref 1 \<longleftrightarrow>
            in_circular_range (uint ref) (uint ref + 2 ^ 22 - 1) (uint x)"
    if "uint x < 16777216" for x
    using recent_enough_circ [OF that, of ref 1] by simp
  have b0: "(uint ref + 2 ^ 22 - 1 - uint ref) mod 2 ^ 24 = (4194303 :: int)" by simp
  have b1: "(uint ref + 2 ^ 22 - 1 - (uint ref + 1)) mod 2 ^ 24 = (4194302 :: int)" by simp
  have x0: "(uint cand - uint ref) mod 16777216 =
      (if 0 \<le> uint cand - uint ref then uint cand - uint ref else uint cand - uint ref + 16777216)"
    using r' c' uint_ge_0 [of ref] uint_ge_0 [of cand] by (intro mod24_small) linarith+
  have x1: "(uint cand - (uint ref + 1)) mod 16777216 =
      (if 0 \<le> uint cand - (uint ref + 1) then uint cand - (uint ref + 1)
       else uint cand - (uint ref + 1) + 16777216)"
    using r' c' uint_ge_0 [of ref] uint_ge_0 [of cand] by (intro mod24_small) linarith+
  have eq: "cand = ref \<longleftrightarrow> uint cand = uint ref" by (simp add: word_uint_eq_iff)
  have two: "gst_rs_fec_dec_is_source_block_nr_recent_enough cand ref 1 \<longleftrightarrow>
            cand = ref \<or> gst_rs_fec_dec_is_source_block_nr_newer cand ref"
    unfolding one [OF c'] newer_circ [OF r' c'] in_circular_range_def b0 b1 eq
    using r' c' uint_ge_0 [of ref] uint_ge_0 [of cand]
    by (auto simp: x0 x1)
  have pred_lt: "uint ((ref - 1) AND 0xFFFFFF) < 16777216" by (rule mask24_lt)
  have three: "\<not> gst_rs_fec_dec_is_source_block_nr_recent_enough ((ref - 1) AND 0xFFFFFF) ref 1"
  proof -
    have "uint ((ref - 1) AND 0xFFFFFF) = uint (ref - 1) mod 16777216" by (rule and_mask24_uint)
    also have "uint (ref - 1) = (uint ref - 1) mod 4294967296" by (simp add: uint_word_ariths)
    also have "\<dots> mod 16777216 = (uint ref - 1) mod 16777216" by (rule mod_mod_cancel) simp
    finally have u: "uint ((ref - 1) AND 0xFFFFFF) = (uint ref - 1) mod 16777216" .
    have "(uint ((ref - 1) AND 0xFFFFFF) - uint ref) mod 2 ^ 24 = ((uint ref - 1) - uint ref) mod 2 ^ 24"
      unfolding u by (simp add: mod_diff_left_eq)
    also have "\<dots> = 16777215" by simp
    finally have "\<not> in_circular_range (uint ref) (uint ref + 2 ^ 22 - 1) (uint ((ref - 1) AND 0xFFFFFF))"
      unfolding in_circular_range_def b0 by simp
    then show ?thesis using one [OF pred_lt] by simp
  qed
  from g g' two one [OF c'] three show ?thesis by blast
qed

theorem C9_is_recent_enough_witness:
  "uint (16777215 :: guint) < 2 ^ 24 \<and> uint (0 :: guint) < 2 ^ 24
   \<and> 1 \<le> uint (2 :: guint) \<and> uint (2 :: guint) \<le> 2 ^ 24 - 2 ^ 22 + 1
   \<and> gst_rs_fec_dec_is_source_block_nr_recent_enough 16777215 0 2
   \<and> in_circular_range (uint (0 :: guint) - (uint (2 :: guint) - 1)) (uint (0 :: guint) + 2 ^ 22 - 1)
        (uint (16777215 :: guint))
   \<and> (\<exists>n. uint (0 :: guint) - (uint (2 :: guint) - 1) \<le> n \<and> n \<le> uint (0 :: guint) + 2 ^ 22 - 1
           \<and> n mod 2 ^ 24 = uint (16777215 :: guint))
   \<and> \<not> gst_rs_fec_dec_is_source_block_nr_recent_enough 16777215 0 1
   \<and> \<not> gst_rs_fec_dec_is_source_block_nr_recent_enough ((0 - 1) AND 0xFFFFFF) 0 1"
proof -
  have h1: "uint (16777215 :: guint) < 2 ^ 24" by simp
  have h2: "uint (0 :: guint) < 2 ^ 24" by simp
  have h3: "1 \<le> uint (2 :: guint)" "1 \<le> uint (1 :: guint)" by simp_all
  have h4: "uint (2 :: guint) \<le> 2 ^ 24 - 2 ^ 22 + 1" "uint (1 :: guint) \<le> 2 ^ 24 - 2 ^ 22 + 1"
    by simp_all
  have n: "gst_rs_fec_dec_is_source_block_nr_recent_enough 16777215 0 2"
    by (simp add: gst_rs_fec_dec_is_source_block_nr_recent_enough_def
        gst_rs_fec_dec_check_if_source_block_in_range_def)
  have m: "\<not> gst_rs_fec_dec_is_source_block_nr_recent_enough 16777215 0 1"
    by (simp add: gst_rs_fec_dec_is_source_block_nr_recent_enough_def
        gst_rs_fec_dec_check_if_source_block_in_range_def)
  from C9_is_recent_enough [OF h1 h2 h3(1) h4(1)] C9_is_recent_enough [OF h1 h2 h3(2) h4(2)]
    n m h1 h2 h3 h4
  show ?thesis by blast
qed

text \<open>
  C9 as stated fails for large maximum ages. With \<open>maxAge = 2^24 - 2^22 + 2\<close> and
  reference 0 the range \<open>[ref-(maxAge-1), ref+2^22-1]\<close> runs from \<open>-12582913\<close> to
  \<open>4194303\<close> and contains the reference itself and block 1, yet the recency test rejects
  both: its start and end coincide at \<open>4194303\<close>, the only block it accepts.
\<close>

theorem C9_large_max_age_counterexample:
  "uint (0 :: guint) - (uint (12582914 :: guint) - 1) \<le> uint (0 :: guint)
   \<and> uint (0 :: guint) \<le> uint (0 :: guint) + 2 ^ 22 - 1
   \<and> \<not> gst_rs_fec_dec_is_source_block_nr_recent_enough 0 0 12582914
   \<and> uint (0 :: guint) - (uint (12582914 :: guint) - 1) \<le> uint (1 :: guint)
   \<and> uint (1 :: guint) \<le> uint (0 :: guint) + 2 ^ 22 - 1
   \<and> \<not> gst_rs_fec_dec_is_source_block_nr_recent_enough 1 0 12582914
   \<and> gst_rs_fec_dec_is_source_block_nr_recent_enough 4194303 0 12582914"
  by (simp add: gst_rs_fec_dec_is_source_block_nr_recent_enough_def
      gst_rs_fec_dec_check_if_source_block_in_range_def)

section \<open>Payload ID: reading back what the encoder wrote\<close>

lemma payload_id_block_nr_take_bit: "take_bit 24 (payload_id_block_nr bytes) = payload_id_block_nr bytes"
  unfolding payload_id_block_nr_def
  by (rule bit_word_eqI) (auto simp: bit_simps dest: bit_imp_le_length)

lemma payload_id_block_nr_mask: "payload_id_block_nr bytes AND 0xFFFFFF = payload_id_block_nr bytes"
  using payload_id_block_nr_take_bit [of bytes]
  by (simp add: take_bit_eq_mask mask_eq_exp_minus_1)

lemma payload_id_block_nr_lt: "uint (payload_id_block_nr bytes) < 2 ^ 24"
  using mask24_lt [of "payload_id_block_nr bytes"]
  by (simp only: payload_id_block_nr_mask) simp

lemma masks:
  "(0xFF0000::guint) = push_bit 16 (mask 8)"
  "(0x00FF00::guint) = push_bit 8 (mask 8)"
  "(0x0000FF::guint) = mask 8"
  "(0xFFFFFF::guint) = mask 24"
  by (simp_all add: mask_eq_exp_minus_1)

lemma read_back_block_nr:
  "payload_id_block_nr (fec_payload_id nr esi k @ rest) = nr AND 0xFFFFFF"
  unfolding payload_id_block_nr_def fec_payload_id_def masks
  apply (simp del: push_bit_and)
  apply (rule bit_word_eqI)
  apply (auto simp: bit_simps)
  subgoal for n by (cases "16 \<le> n") auto
  subgoal for n by (cases "16 \<le> n") auto
  done

section \<open>Decoder: discarded packets\<close>

lemma one_packet_block5:
  "gst_rs_fec_dec_fetch_source_block (after_packets default_decoder [(packet_block5_esi0, True)]) 5
     = Some \<lparr>block_nr = 5, packet_mask = [1, 0, 0, 0, 0, 0, 0, 0],
             source_packets = [packet_block5_esi0], repair_packets = [],
             num_source_packets = 1, num_repair_packets = 0,
             output_adu_table = [Some [0x11], None, None, None], is_complete = False\<rparr>"
  by code_simp

lemma insert_not_recent:
  assumes len: "6 \<le> length fec_packet"
    and rd: "(if is_source_packet
              then gst_rs_fec_dec_source_packet_read_payload_id fec_packet
              else gst_rs_fec_dec_repair_packet_read_payload_id fec_packet) = (source_block_nr, esi)"
    and old: "\<not> gst_rs_fec_dec_is_source_block_nr_recent_enough source_block_nr
                (most_recent_block_nr d) (max_source_block_age d)"
  shows "gst_rs_fec_dec_insert_fec_packet d fec_packet is_source_packet =
           Inr (GST_FLOW_OK,
                case gst_rs_fec_dec_fetch_source_block d source_block_nr of
                  None \<Rightarrow> snd (gst_rs_fec_dec_create_source_block d source_block_nr)
                | Some sb \<Rightarrow> d)"
  using len old
  unfolding gst_rs_fec_dec_insert_fec_packet_def rd
  by (auto simp: gst_rs_fec_dec_create_source_block_def Let_def split: option.splits)

lemma read_payload_id_lt:
  assumes "(if is_source_packet
              then gst_rs_fec_dec_source_packet_read_payload_id fec_packet
              else gst_rs_fec_dec_repair_packet_read_payload_id fec_packet) = (source_block_nr, esi)"
  shows "uint source_block_nr < 2 ^ 24"
  using assms payload_id_block_nr_lt
  by (auto simp: gst_rs_fec_dec_source_packet_read_payload_id_def
      gst_rs_fec_dec_repair_packet_read_payload_id_def split: if_splits)

text \<open>
  C7. A packet whose block is in the table and is already complete, or whose ESI is
  already marked in the block's bitmask, is discarded: the insert operation returns
  \<open>GST_FLOW_OK\<close> and leaves the whole decoder state as it was, so the block's packet
  lists, counts, bitmask, output table and completeness are unchanged and nothing is
  pushed downstream.
\<close>

theorem C7_duplicate_insert:
  assumes len: "6 \<le> length fec_packet"
    and rd: "(if is_source_packet
              then gst_rs_fec_dec_source_packet_read_payload_id fec_packet
              else gst_rs_fec_dec_repair_packet_read_payload_id fec_packet) = (source_block_nr, esi)"
    and present: "gst_rs_fec_dec_fetch_source_block d source_block_nr = Some source_block"
    and dup: "is_complete source_block \<or> SOURCE_BLOCK_IS_FLAG_SET source_block esi"
  shows "gst_rs_fec_dec_insert_fec_packet d fec_packet is_source_packet = Inr (GST_FLOW_OK, d)"
  using len dup
  unfolding gst_rs_fec_dec_insert_fec_packet_def rd
  by (auto simp: present)

theorem C7_duplicate_insert_witness:
  "SOURCE_BLOCK_IS_FLAG_SET
     (the (gst_rs_fec_dec_fetch_source_block
        (after_packets default_decoder [(packet_block5_esi0, True)]) 5)) 0
   \<and> gst_rs_fec_dec_insert_fec_packet
        (after_packets default_decoder [(packet_block5_esi0, True)]) packet_block5_esi0 True
       = Inr (GST_FLOW_OK, after_packets default_decoder [(packet_block5_esi0, True)])"
proof -
  let ?d = "after_packets default_decoder [(packet_block5_esi0, True)]"
  let ?sb = "\<lparr>block_nr = 5, packet_mask = [1, 0, 0, 0, 0, 0, 0, 0],
             source_packets = [packet_block5_esi0], repair_packets = [],
             num_source_packets = 1, num_repair_packets = 0,
             output_adu_table = [Some [0x11], None, None, None], is_complete = False\<rparr>"
  have len: "6 \<le> length packet_block5_esi0" by (simp add: packet_block5_esi0_def)
  have rd: "(if True then gst_rs_fec_dec_source_packet_read_payload_id packet_block5_esi0
             else gst_rs_fec_dec_repair_packet_read_payload_id packet_block5_esi0) = (5, 0)"
    by code_simp
  have present: "gst_rs_fec_dec_fetch_source_block ?d 5 = Some ?sb" by (rule one_packet_block5)
  have flag: "SOURCE_BLOCK_IS_FLAG_SET ?sb 0" by code_simp
  then have dup: "is_complete ?sb \<or> SOURCE_BLOCK_IS_FLAG_SET ?sb 0" by simp
  from C7_duplicate_insert [OF len rd present dup] flag present show ?thesis by simp
qed

text \<open>
  C4. The decoder starts with \<open>first_pruning\<close> set and reference 0, and a flush sets
  \<open>first_pruning\<close> again while keeping the old reference. While \<open>first_pruning\<close> is set,
  a packet whose block number lies outside the circular window
  \<open>[reference-(maxAge-1), reference+2^22-1]\<close> is still filtered: the insert operation
  returns \<open>GST_FLOW_OK\<close>, the reference and \<open>first_pruning\<close> stay as they were, nothing
  is pushed, and the resulting state holds none of the packet's bytes (at most an empty
  block for its number).
\<close>

theorem C4_filter_before_first_pruning:
  assumes len: "6 \<le> length fec_packet"
    and rd: "(if is_source_packet
              then gst_rs_fec_dec_source_packet_read_payload_id fec_packet
              else gst_rs_fec_dec_repair_packet_read_payload_id fec_packet) = (source_block_nr, esi)"
    and first: "first_pruning d"
    and outside: "\<not> in_circular_range
                     (uint (most_recent_block_nr d) - (uint (max_source_block_age d) - 1))
                     (uint (most_recent_block_nr d) + 2 ^ 22 - 1) (uint source_block_nr)"
  shows "first_pruning (gst_rs_fec_dec_init ds lib)
       \<and> most_recent_block_nr (gst_rs_fec_dec_init ds lib) = 0
       \<and> first_pruning (gst_rs_fec_dec_flush d0)
       \<and> most_recent_block_nr (gst_rs_fec_dec_flush d0) = most_recent_block_nr d0
       \<and> (\<exists>d'. gst_rs_fec_dec_insert_fec_packet d fec_packet is_source_packet = Inr (GST_FLOW_OK, d')
             \<and> d' = (case gst_rs_fec_dec_fetch_source_block d source_block_nr of
                        None \<Rightarrow> snd (gst_rs_fec_dec_create_source_block d source_block_nr)
                      | Some sb \<Rightarrow> d)
             \<and> most_recent_block_nr d' = most_recent_block_nr d
             \<and> first_pruning d'
             \<and> downstream d' = downstream d
             \<and> (\<forall>sb. gst_rs_fec_dec_fetch_source_block d source_block_nr = None \<longrightarrow>
                      gst_rs_fec_dec_fetch_source_block d' source_block_nr = Some sb \<longrightarrow>
                      source_packets sb = [] \<and> repair_packets sb = []
                      \<and> (\<forall>slot \<in> set (output_adu_table sb). slot = None)))"
proof -
  have lt: "uint source_block_nr < 16777216" using read_payload_id_lt [OF rd] by simp
  have old: "\<not> gst_rs_fec_dec_is_source_block_nr_recent_enough source_block_nr
                (most_recent_block_nr d) (max_source_block_age d)"
    using outside recent_enough_circ [OF lt] by simp
  note ins = insert_not_recent [OF len rd old]
  show ?thesis
    using first unfolding ins
    by (auto simp: gst_rs_fec_dec_init_def gst_rs_fec_dec_flush_def gst_rs_fec_dec_reset_states_def
        gst_rs_fec_dec_create_source_block_def gst_rs_fec_dec_fetch_source_block_def
        Let_def AList.update_conv' split: option.splits)
qed

theorem C4_filter_before_first_pruning_witness:
  "first_pruning default_decoder
   \<and> \<not> in_circular_range
          (uint (most_recent_block_nr default_decoder) - (uint (max_source_block_age default_decoder) - 1))
          (uint (most_recent_block_nr default_decoder) + 2 ^ 22 - 1) (uint (4194304 :: guint))
   \<and> (\<exists>d'. gst_rs_fec_dec_insert_fec_packet default_decoder packet_block4194304_esi0 True
              = Inr (GST_FLOW_OK, d')
           \<and> most_recent_block_nr d' = 0 \<and> first_pruning d'
           \<and> pushed (downstream d') = [])"
proof -
  have len: "6 \<le> length packet_block4194304_esi0" by (simp add: packet_block4194304_esi0_def)
  have rd: "(if True then gst_rs_fec_dec_source_packet_read_payload_id packet_block4194304_esi0
             else gst_rs_fec_dec_repair_packet_read_payload_id packet_block4194304_esi0)
            = (4194304, 0)"
    by code_simp
  have first: "first_pruning default_decoder"
    by (simp add: default_decoder_def gst_rs_fec_dec_init_def)
  have vals: "most_recent_block_nr default_decoder = 0" "max_source_block_age default_decoder = 1"
    "pushed (downstream default_decoder) = []"
    by (simp_all add: default_decoder_def gst_rs_fec_dec_init_def accepting_downstream_def)
  have outside: "\<not> in_circular_range
          (uint (most_recent_block_nr default_decoder) - (uint (max_source_block_age default_decoder) - 1))
          (uint (most_recent_block_nr default_decoder) + 2 ^ 22 - 1) (uint (4194304 :: guint))"
    by (simp add: vals in_circular_range_def)
  from C4_filter_before_first_pruning [OF len rd first outside] first outside vals
  show ?thesis by auto
qed

text \<open>
  C2 (the code departs from the claim). With reference block 100 and maximum age 1, a
  packet of block 50 is too old. The insert operation returns \<open>GST_FLOW_OK\<close> and pushes
  nothing, but it has already created a source block for number 50 and entered it in
  the table.
\<close>

theorem C2_too_old_packet_creates_block:
  "gst_rs_fec_dec_fetch_source_block
       (after_packets default_decoder [(packet_block100_esi0, True)]) 50 = None
   \<and> most_recent_block_nr (after_packets default_decoder [(packet_block100_esi0, True)]) = 100
   \<and> \<not> gst_rs_fec_dec_is_source_block_nr_recent_enough 50 100 1
   \<and> map fst (source_block_table
        (after_packets default_decoder [(packet_block100_esi0, True)])) = [100]
   \<and> map fst (source_block_table
        (after_packets default_decoder
           [(packet_block100_esi0, True), (packet_block50_esi0, True)])) = [100, 50]
   \<and> gst_rs_fec_dec_fetch_source_block
        (after_packets default_decoder
           [(packet_block100_esi0, True), (packet_block50_esi0, True)]) 50
       = Some \<lparr>block_nr = 50, packet_mask = [0, 0, 0, 0, 0, 0, 0, 0],
               source_packets = [], repair_packets = [],
               num_source_packets = 0, num_repair_packets = 0,
               output_adu_table = [None, None, None, None], is_complete = False\<rparr>"
  by code_simp

section \<open>Decoder: delivery order of pruned blocks\<close>

text \<open>
  C1 (the code departs from the claim). Blocks \<open>2^24-1\<close> and \<open>0\<close> are both in the table
  when the first packet of block 2 arrives; block 0 is the newer of the two. Pruning
  evicts both and sorts them with the raw comparison of
  \<open>gst_rs_fec_dec_compare_source_blocks\<close>, so the ADU of block 0 is pushed before the ADU of
  block \<open>2^24-1\<close>.
\<close>

theorem C1_wraparound_delivery_order:
  "sort_output wrap_decoder
   \<and> delivered (after_packets wrap_decoder
        [(packet_block16777215, True), (packet_block0, True)]) = []
   \<and> map fst (source_block_table (after_packets wrap_decoder
        [(packet_block16777215, True), (packet_block0, True)])) = [16777215, 0]
   \<and> gst_rs_fec_dec_is_source_block_nr_newer 0 16777215
   \<and> delivered (after_packets wrap_decoder
        [(packet_block16777215, True), (packet_block0, True), (packet_block2, True)])
       = [[0xBB], [0xAA]]
   \<and> map fst (source_block_table (after_packets wrap_decoder
        [(packet_block16777215, True), (packet_block0, True), (packet_block2, True)])) = [2]"
  by code_simp

section \<open>Encoder: oversize ADUs\<close>

lemma sink_chain_oversize:
  assumes "\<not> eos_received e" and "length buffer > 65535"
  shows "gst_rs_fec_enc_sink_chain e buffer =
           Inr (GST_FLOW_ERROR,
                e\<lparr>enc_messages := enc_messages e @ [ELEMENT_ERROR ''input buffer too large'']\<rparr>)"
  using assms by (simp add: gst_rs_fec_enc_sink_chain_def)

lemma replicate_4_None: "replicate 4 None = [None, None, None, None]"
  by (simp add: numeral_eq_Suc)

lemma default_encoder_first_adu:
  "\<exists>e1. enc_step default_encoder (Chain [1, 2, 3]) = Inr (GST_FLOW_OK, e1)
     \<and> \<not> eos_received e1 \<and> cur_num_adus e1 = 1
     \<and> adu_table e1 = [Some [1, 2, 3], None, None, None] \<and> cur_max_adu_length e1 = 3"
  by (simp add: default_encoder_def gst_rs_fec_enc_init_def
        gst_rs_fec_enc_sink_chain_def gst_rs_fec_enc_push_adu_def gst_pad_push_def
        accepting_downstream_def gst_rs_fec_enc_insert_adu_def
        gst_rs_fec_enc_process_source_block_def Let_def replicate_4_None)

text \<open>
  C3 (amended). An ADU longer than 65535 bytes, submitted before end-of-stream, is
  rejected: the chain function returns \<open>GST_FLOW_ERROR\<close> and posts the element error
  "input buffer too large", pushes no source or repair packet, and leaves the pending
  ADU table, the collected-ADU count, the maximum ADU length and the block counter as
  they were.
\<close>

theorem C3_oversize_rejected:
  assumes "\<not> eos_received e" and "length buffer > 65535"
  shows "\<exists>e'. gst_rs_fec_enc_sink_chain e buffer = Inr (GST_FLOW_ERROR, e')
           \<and> enc_messages e' = enc_messages e @ [ELEMENT_ERROR ''input buffer too large'']
           \<and> enc_downstream e' = enc_downstream e
           \<and> adu_table e' = adu_table e
           \<and> cur_num_adus e' = cur_num_adus e
           \<and> cur_max_adu_length e' = cur_max_adu_length e
           \<and> cur_source_block_nr e' = cur_source_block_nr e"
  using assms by (simp add: gst_rs_fec_enc_sink_chain_def)

theorem C3_oversize_rejected_witness:
  "\<not> eos_received default_encoder \<and> length (replicate 70000 (0 :: guint8)) > 65535
   \<and> (\<exists>e'. gst_rs_fec_enc_sink_chain default_encoder (replicate 70000 0) = Inr (GST_FLOW_ERROR, e')
           \<and> pushed (enc_downstream e') = [] \<and> cur_num_adus e' = 0)"
proof -
  have h1: "\<not> eos_received default_encoder"
    by (simp add: default_encoder_def gst_rs_fec_enc_init_def)
  have h2: "length (replicate 70000 (0 :: guint8)) > 65535" by simp
  have v: "pushed (enc_downstream default_encoder) = []" "cur_num_adus default_encoder = 0"
    by (simp_all add: default_encoder_def gst_rs_fec_enc_init_def accepting_downstream_def)
  from C3_oversize_rejected [OF h1 h2] h1 h2 v show ?thesis by auto
qed

text \<open>
  C3 as stated fails in two ways. With one ADU of three bytes pending, an ADU of 70000
  bytes is rejected, and afterwards the pending ADU, the count 1 and the maximum length
  3 are all still there: the accumulated state is not discarded. And once end-of-stream
  has been received, an ADU of 70000 bytes is dropped with \<open>GST_FLOW_EOS\<close>, and no stream
  error is posted.
\<close>

theorem C3_oversize_discards_state_counterexample:
  "cur_num_adus (enc_after default_encoder [Chain [1, 2, 3], Chain (replicate 70000 0)]) = 1
   \<and> adu_table (enc_after default_encoder [Chain [1, 2, 3], Chain (replicate 70000 0)])
        = [Some [1, 2, 3], None, None, None]
   \<and> cur_max_adu_length (enc_after default_encoder [Chain [1, 2, 3], Chain (replicate 70000 0)]) = 3
   \<and> \<not> (cur_num_adus (enc_after default_encoder [Chain [1, 2, 3], Chain (replicate 70000 0)]) = 0
        \<and> adu_table (enc_after default_encoder [Chain [1, 2, 3], Chain (replicate 70000 0)])
             = [None, None, None, None]
        \<and> cur_max_adu_length (enc_after default_encoder [Chain [1, 2, 3], Chain (replicate 70000 0)]) = 0)
   \<and> (\<exists>e'. gst_rs_fec_enc_sink_chain (gst_rs_fec_enc_sink_event_eos default_encoder)
               (replicate 70000 0) = Inr (GST_FLOW_EOS, e')
           \<and> enc_messages e' = [])"
proof -
  obtain e1 where step: "enc_step default_encoder (Chain [1, 2, 3]) = Inr (GST_FLOW_OK, e1)"
    and neos: "\<not> eos_received e1"
    and st: "cur_num_adus e1 = 1" "adu_table e1 = [Some [1, 2, 3], None, None, None]"
      "cur_max_adu_length e1 = 3"
    using default_encoder_first_adu by blast
  have big: "length (replicate 70000 (0 :: guint8)) > 65535" by simp
  have "enc_after default_encoder [Chain [1, 2, 3], Chain (replicate 70000 0)]
          = e1\<lparr>enc_messages := enc_messages e1 @ [ELEMENT_ERROR ''input buffer too large'']\<rparr>"
    using step by (simp add: enc_after_def sink_chain_oversize [OF neos big])
  then have kept: "cur_num_adus (enc_after default_encoder [Chain [1, 2, 3], Chain (replicate 70000 0)]) = 1"
    "adu_table (enc_after default_encoder [Chain [1, 2, 3], Chain (replicate 70000 0)])
        = [Some [1, 2, 3], None, None, None]"
    "cur_max_adu_length (enc_after default_encoder [Chain [1, 2, 3], Chain (replicate 70000 0)]) = 3"
    using st by simp_all
  have eos: "eos_received (gst_rs_fec_enc_sink_event_eos default_encoder)"
    "enc_messages (gst_rs_fec_enc_sink_event_eos default_encoder) = []"
    by (simp_all add: gst_rs_fec_enc_sink_event_eos_def Let_def default_encoder_def
        gst_rs_fec_enc_init_def gst_rs_fec_enc_flush_all_adus_def
        gst_rs_fec_enc_flush_all_fec_repair_packets_def)
  have "gst_rs_fec_enc_sink_chain (gst_rs_fec_enc_sink_event_eos default_encoder)
               (replicate 70000 0)
          = Inr (GST_FLOW_EOS, gst_rs_fec_enc_sink_event_eos default_encoder)"
    using eos(1) by (simp add: gst_rs_fec_enc_sink_chain_def)
  with eos(2) have after_eos:
    "\<exists>e'. gst_rs_fec_enc_sink_chain (gst_rs_fec_enc_sink_event_eos default_encoder)
               (replicate 70000 0) = Inr (GST_FLOW_EOS, e')
           \<and> enc_messages e' = []"
    by simp
  from kept after_eos show ?thesis by simp
qed

section \<open>Decoder: what processing and pushing leave unchanged\<close>

lemma same_core_refl: "same_core d d"
  unfolding same_core_def
  by (rule exI [of _ "downstream d"], rule exI [of _ "openfec d"], rule exI [of _ "messages d"],
      rule exI [of _ "encoding_symbol_length d"], rule exI [of _ "stream_started d"],
      rule exI [of _ "segment_started d"]) simp

lemma same_core_trans:
  assumes "same_core d d'" and "same_core d' d''"
  shows "same_core d d''"
proof -
  from assms(1) obtain ds lib msgs len ss sg where
    1: "d' = d\<lparr>downstream := ds, openfec := lib, messages := msgs,
               encoding_symbol_length := len, stream_started := ss, segment_started := sg\<rparr>"
    unfolding same_core_def by blast
  from assms(2) obtain ds' lib' msgs' len' ss' sg' where
    2: "d'' = d'\<lparr>downstream := ds', openfec := lib', messages := msgs',
               encoding_symbol_length := len', stream_started := ss', segment_started := sg'\<rparr>"
    unfolding same_core_def by blast
  have "d'' = d\<lparr>downstream := ds', openfec := lib', messages := msgs',
               encoding_symbol_length := len', stream_started := ss', segment_started := sg'\<rparr>"
    unfolding 2 1 by simp
  then show ?thesis unfolding same_core_def by blast
qed

lemma same_core_fields:
  assumes "same_core d d'"
  shows "processing_log d' = processing_log d"
    and "source_block_table d' = source_block_table d"
    and "sort_output d' = sort_output d"
    and "num_source_symbols d' = num_source_symbols d"
    and "num_repair_symbols d' = num_repair_symbols d"
    and "num_encoding_symbols d' = num_encoding_symbols d"
    and "most_recent_block_nr d' = most_recent_block_nr d"
    and "max_source_block_age d' = max_source_block_age d"
    and "first_pruning d' = first_pruning d"
proof -
  from assms obtain ds lib msgs len ss sg where
    "d' = d\<lparr>downstream := ds, openfec := lib, messages := msgs, encoding_symbol_length := len,
            stream_started := ss, segment_started := sg\<rparr>"
    unfolding same_core_def by blast
  then show "processing_log d' = processing_log d"
    and "source_block_table d' = source_block_table d"
    and "sort_output d' = sort_output d"
    and "num_source_symbols d' = num_source_symbols d"
    and "num_repair_symbols d' = num_repair_symbols d"
    and "num_encoding_symbols d' = num_encoding_symbols d"
    and "most_recent_block_nr d' = most_recent_block_nr d"
    and "max_source_block_age d' = max_source_block_age d"
    and "first_pruning d' = first_pruning d"
    by simp_all
qed


lemma same_core_upd:
  assumes "same_core d d'"
  shows "same_core d (d'\<lparr>downstream := ds\<rparr>)"
    and "same_core d (d'\<lparr>openfec := lib\<rparr>)"
    and "same_core d (d'\<lparr>messages := msgs\<rparr>)"
    and "same_core d (d'\<lparr>encoding_symbol_length := len\<rparr>)"
    and "same_core d (d'\<lparr>stream_started := ss\<rparr>)"
    and "same_core d (d'\<lparr>segment_started := sg\<rparr>)"
proof -
  from assms obtain ds0 lib0 msgs0 len0 ss0 sg0 where
    1: "d' = d\<lparr>downstream := ds0, openfec := lib0, messages := msgs0,
               encoding_symbol_length := len0, stream_started := ss0, segment_started := sg0\<rparr>"
    unfolding same_core_def by blast
  have "d'\<lparr>downstream := ds\<rparr> = d\<lparr>downstream := ds, openfec := lib0, messages := msgs0,
               encoding_symbol_length := len0, stream_started := ss0, segment_started := sg0\<rparr>"
    unfolding 1 by simp
  then show "same_core d (d'\<lparr>downstream := ds\<rparr>)" unfolding same_core_def by blast
  have "d'\<lparr>openfec := lib\<rparr> = d\<lparr>downstream := ds0, openfec := lib, messages := msgs0,
               encoding_symbol_length := len0, stream_started := ss0, segment_started := sg0\<rparr>"
    unfolding 1 by simp
  then show "same_core d (d'\<lparr>openfec := lib\<rparr>)" unfolding same_core_def by blast
  have "d'\<lparr>messages := msgs\<rparr> = d\<lparr>downstream := ds0, openfec := lib0, messages := msgs,
               encoding_symbol_length := len0, stream_started := ss0, segment_started := sg0\<rparr>"
    unfolding 1 by simp
  then show "same_core d (d'\<lparr>messages := msgs\<rparr>)" unfolding same_core_def by blast
  have "d'\<lparr>encoding_symbol_length := len\<rparr> = d\<lparr>downstream := ds0, openfec := lib0, messages := msgs0,
               encoding_symbol_length := len, stream_started := ss0, segment_started := sg0\<rparr>"
    unfolding 1 by simp
  then show "same_core d (d'\<lparr>encoding_symbol_length := len\<rparr>)" unfolding same_core_def by blast
  have "d'\<lparr>stream_started := ss\<rparr> = d\<lparr>downstream := ds0, openfec := lib0, messages := msgs0,
               encoding_symbol_length := len0, stream_started := ss, segment_started := sg0\<rparr>"
    unfolding 1 by simp
  then show "same_core d (d'\<lparr>stream_started := ss\<rparr>)" unfolding same_core_def by blast
  have "d'\<lparr>segment_started := sg\<rparr> = d\<lparr>downstream := ds0, openfec := lib0, messages := msgs0,
               encoding_symbol_length := len0, stream_started := ss0, segment_started := sg\<rparr>"
    unfolding 1 by simp
  then show "same_core d (d'\<lparr>segment_started := sg\<rparr>)" unfolding same_core_def by blast
qed

lemmas same_core_intros = same_core_refl same_core_upd

lemma push_adu_same_core:
  "gst_rs_fec_dec_push_adu d adu = (ret, d') \<Longrightarrow> same_core d d'"
  by (auto simp: gst_rs_fec_dec_push_adu_def gst_pad_push_def Let_def same_core_intros)

lemma push_stream_start_same_core: "same_core d (gst_rs_fec_dec_push_stream_start d)"
  by (simp add: gst_rs_fec_dec_push_stream_start_def same_core_intros)

lemma push_segment_same_core: "same_core d (gst_rs_fec_dec_push_segment d)"
  by (simp add: gst_rs_fec_dec_push_segment_def same_core_intros)

lemma push_source_block_loop_same_core:
  "push_source_block_loop d adus push_adus ret = (ret', d') \<Longrightarrow> same_core d d'"
proof (induction d adus push_adus ret rule: push_source_block_loop.induct)
  case (1 d push_adus ret)
  then show ?case by (simp add: same_core_refl)
next
  case (2 d adus push_adus ret)
  then show ?case by simp
next
  case (3 d adu adus push_adus ret)
  show ?case
  proof (cases push_adus)
    case False
    with 3 show ?thesis by simp
  next
    case True
    obtain r1 d1 where p: "gst_rs_fec_dec_push_adu d adu = (r1, d1)" by (cases "gst_rs_fec_dec_push_adu d adu")
    have s1: "same_core d d1" using p by (rule push_adu_same_core)
    show ?thesis
    proof (cases "r1 = GST_FLOW_OK")
      case ok: True
      have "same_core d1 d'" using 3(2)[OF True p [symmetric] refl] 3(4) True p ok by simp
      with s1 show ?thesis by (rule same_core_trans)
    next
      case nok: False
      have "same_core d1 d'" using 3(1)[OF True p [symmetric] refl] 3(4) True p nok by simp
      with s1 show ?thesis by (rule same_core_trans)
    qed
  qed
qed

lemma push_source_block_same_core:
  "gst_rs_fec_dec_push_source_block d sb = (ret, d') \<Longrightarrow> same_core d d'"
  unfolding gst_rs_fec_dec_push_source_block_def
  by (blast intro: same_core_trans push_stream_start_same_core push_segment_same_core
      push_source_block_loop_same_core)


lemma CHECK_IF_FATAL_ERROR_same_core: "same_core d (CHECK_IF_FATAL_ERROR d status)"
  by (simp add: CHECK_IF_FATAL_ERROR_def same_core_intros)

lemma of_step_same_core: "of_step d c = (status, d') \<Longrightarrow> same_core d d'"
  by (auto simp: of_step_def of_invoke_def Let_def same_core_intros)

lemma create_openfec_session_same_core:
  "gst_rs_fec_dec_create_openfec_session d len = (session, d') \<Longrightarrow> same_core d d'"
  by (auto simp: gst_rs_fec_dec_create_openfec_session_def of_invoke_def Let_def
      CHECK_IF_FATAL_ERROR_def same_core_intros split: if_splits)

lemma process_source_block_cleanup_same_core:
  "process_source_block_cleanup d ret = (ret', d') \<Longrightarrow> same_core d d'"
  by (auto simp: process_source_block_cleanup_def of_invoke_def Let_def
      CHECK_IF_FATAL_ERROR_def same_core_intros split: if_splits)

lemma process_source_block_failed_same_core:
  "process_source_block_failed d status sb = Inr (ret, d', sb') \<Longrightarrow> same_core d d'"
  unfolding process_source_block_failed_def
  by (auto split: prod.splits
      intro: same_core_trans [OF CHECK_IF_FATAL_ERROR_same_core process_source_block_cleanup_same_core])

lemma process_recovered_symbols_same_core:
  "process_recovered_symbols d received recovered esis out = Inr (finished, ret, d', out')
     \<Longrightarrow> same_core d d'"
proof (induction esis arbitrary: d out)
  case Nil
  then show ?case by (simp add: same_core_refl)
next
  case (Cons esi esis)
  show ?case
  proof (cases "received ! esi \<noteq> None")
    case True
    with Cons show ?thesis by simp
  next
    case False
    then have rn: "received ! esi = None" by simp
    from Cons.prems rn obtain sym where
      sym: "(if esi < length recovered then recovered ! esi else None) = Some sym"
      by (auto split: option.splits)
    from Cons.prems rn sym have len3: "\<not> length sym < 3" by (auto split: if_splits)
    let ?flow = "unat (sym ! 0)"
    let ?len = "unat (push_bit 8 (ucast (sym ! 1) :: guint) OR (ucast (sym ! 2) :: guint))"
    show ?thesis
    proof (cases "?flow \<noteq> 0")
      case True
      have "same_core (d\<lparr>messages := messages d @
               [ELEMENT_WARNING ''multiple ADU flows are currently not supported'']\<rparr>) d'"
        using Cons.prems rn sym len3 True by (intro Cons.IH) (simp add: Let_def)
      moreover have "same_core d (d\<lparr>messages := messages d @
               [ELEMENT_WARNING ''multiple ADU flows are currently not supported'']\<rparr>)"
        by (simp add: same_core_intros)
      ultimately show ?thesis by (blast intro: same_core_trans)
    next
      case flow0: False
      from Cons.prems rn sym len3 flow0 have lenok: "\<not> length sym < 3 + ?len"
        by (auto simp: Let_def split: if_splits)
      show ?thesis
      proof (cases "sort_output d")
        case True
        show ?thesis
          using Cons.prems rn sym len3 flow0 lenok True
          by (intro Cons.IH [of d "out[esi := Some (take ?len (drop 3 sym))]"]) (simp add: Let_def)
      next
        case nosort: False
        obtain r1 d1 where p: "gst_rs_fec_dec_push_adu d (take ?len (drop 3 sym)) = (r1, d1)"
          by (cases "gst_rs_fec_dec_push_adu d (take ?len (drop 3 sym))")
        have s1: "same_core d d1" using p by (rule push_adu_same_core)
        show ?thesis
        proof (cases "r1 = GST_FLOW_OK")
          case True
          have "same_core d1 d'"
            using Cons.prems rn sym len3 flow0 lenok nosort p True
            by (intro Cons.IH [of d1 "out[esi := None]"]) (simp add: Let_def)
          with s1 show ?thesis by (rule same_core_trans)
        next
          case False
          then have "d' = d1"
            using Cons.prems rn sym len3 flow0 lenok nosort p by (simp add: Let_def)
          with s1 show ?thesis by simp
        qed
      qed
    qed
  qed
qed


lemma process_source_block_same_core:
  assumes "gst_rs_fec_dec_process_source_block d sb = Inr (ret, d', sb')"
  shows "same_core d d'"
proof (cases "num_repair_packets sb = 0")
  case True
  with assms show ?thesis
    by (auto simp: gst_rs_fec_dec_process_source_block_def same_core_refl split: if_splits)
next
  case False
  with assms obtain first_repair rest where rp: "repair_packets sb = first_repair # rest"
    by (cases "repair_packets sb") (auto simp: gst_rs_fec_dec_process_source_block_def)
  define len where "len = length first_repair - 6"
  obtain session d1 where cs: "gst_rs_fec_dec_create_openfec_session d len = (session, d1)"
    by (cases "gst_rs_fec_dec_create_openfec_session d len")
  have s1: "same_core d d1" using cs by (rule create_openfec_session_same_core)
  show ?thesis
  proof (cases session)
    case nos: False
    with assms False rp cs have "d' = d1"
      by (simp add: gst_rs_fec_dec_process_source_block_def len_def)
    with s1 show ?thesis by simp
  next
    case True
    from assms False rp cs True obtain received1 out1 where
      sp: "process_source_packets d1 len (source_packets sb)
             (replicate (num_encoding_symbols d1) None) (output_adu_table sb) = Inr (received1, out1)"
      by (cases "process_source_packets d1 len (source_packets sb)
             (replicate (num_encoding_symbols d1) None) (output_adu_table sb)")
         (auto simp: gst_rs_fec_dec_process_source_block_def len_def)
    from assms False rp cs True sp obtain received where
      rpk: "process_repair_packets d1 (repair_packets sb) 0 received1 = Inr received"
      by (cases "process_repair_packets d1 (first_repair # rest) 0 received1")
         (auto simp: gst_rs_fec_dec_process_source_block_def len_def)
    obtain st2 d2 where o2: "of_step d1 (OF_set_available_symbols received) = (st2, d2)"
      by (cases "of_step d1 (OF_set_available_symbols received)")
    obtain st3 d3 where o3: "of_step d2 OF_finish_decoding = (st3, d3)"
      by (cases "of_step d2 OF_finish_decoding")
    obtain st4 d4 where o4: "of_step d3 OF_get_source_symbols_tab = (st4, d4)"
      by (cases "of_step d3 OF_get_source_symbols_tab")
    have s2: "same_core d d2" using s1 of_step_same_core [OF o2] by (rule same_core_trans)
    have s3: "same_core d d3" using s2 of_step_same_core [OF o3] by (rule same_core_trans)
    have s4: "same_core d d4" using s3 of_step_same_core [OF o4] by (rule same_core_trans)
    note unf = gst_rs_fec_dec_process_source_block_def len_def [symmetric]
    from rpk rp have rpk': "process_repair_packets d1 (first_repair # rest) 0 received1 = Inr received"
      by simp
    show ?thesis
    proof (cases "st2 \<noteq> OF_STATUS_OK")
      case True
      with assms False rp cs \<open>session\<close> sp rpk' o2
      have "process_source_block_failed d2 st2 (sb\<lparr>output_adu_table := out1\<rparr>) = Inr (ret, d', sb')"
        by (simp add: unf)
      from s2 process_source_block_failed_same_core [OF this] show ?thesis by (rule same_core_trans)
    next
      case ok2: False
      show ?thesis
      proof (cases "st3 \<noteq> OF_STATUS_OK")
        case True
        with assms False rp cs \<open>session\<close> sp rpk' o2 ok2 o3
        have "process_source_block_failed d3 st3 (sb\<lparr>output_adu_table := out1\<rparr>) = Inr (ret, d', sb')"
          by (simp add: unf)
        from s3 process_source_block_failed_same_core [OF this] show ?thesis by (rule same_core_trans)
      next
        case ok3: False
        show ?thesis
        proof (cases "st4 \<noteq> OF_STATUS_OK")
          case True
          with assms False rp cs \<open>session\<close> sp rpk' o2 ok2 o3 ok3 o4
          have "process_source_block_failed d4 st4 (sb\<lparr>output_adu_table := out1\<rparr>) = Inr (ret, d', sb')"
            by (simp add: unf)
          from s4 process_source_block_failed_same_core [OF this] show ?thesis by (rule same_core_trans)
        next
          case ok4: False
          from assms False rp cs \<open>session\<close> sp rpk' o2 ok2 o3 ok3 o4 ok4
          obtain finished r5 d5 out2 where
            prs: "process_recovered_symbols d4 received
                    (of_source_symbols (openfec d4) (of_calls (openfec d4)))
                    [0 ..< num_source_symbols d4] out1 = Inr (finished, r5, d5, out2)"
            and cl: "process_source_block_cleanup d5 r5 = (ret, d')"
            by (auto simp: unf split: sum.splits prod.splits)
          from s4 process_recovered_symbols_same_core [OF prs] have "same_core d d5"
            by (rule same_core_trans)
          from this process_source_block_cleanup_same_core [OF cl] show ?thesis
            by (rule same_core_trans)
        qed
      qed
    qed
  qed
qed


lemma push_pruned_blocks_same_core:
  "push_pruned_blocks d sbs ret = Inr (ret', d') \<Longrightarrow> same_core d d'"
proof (induction sbs arbitrary: d ret)
  case Nil
  then show ?case by (simp add: same_core_refl)
next
  case (Cons sb sbs)
  from Cons.prems have so: "sort_output d" by (auto split: if_splits)
  show ?case
  proof (cases "ret = GST_FLOW_OK")
    case True
    obtain r1 d1 where p: "gst_rs_fec_dec_push_source_block d sb = (r1, d1)"
      by (cases "gst_rs_fec_dec_push_source_block d sb")
    have "same_core d1 d'" using Cons.prems so True p by (intro Cons.IH [of d1 r1]) simp
    with push_source_block_same_core [OF p] show ?thesis by (rule same_core_trans)
  next
    case False
    with Cons.prems so show ?thesis by (intro Cons.IH [of d ret]) simp
  qed
qed

lemma prune_processing_log:
  assumes "gst_rs_fec_dec_prune_source_block_table d nr = Inr (ret, d')"
  shows "processing_log d' = processing_log d"
  using assms unfolding gst_rs_fec_dec_prune_source_block_table_def
  by (auto simp: Let_def split: if_splits dest!: push_pruned_blocks_same_core same_core_fields(1))

lemma insert_process_and_prune_log:
  assumes "insert_process_and_prune d sb nr = Inr (ret, d')"
  shows "processing_log d' =
           processing_log d @ (if gst_rs_fec_dec_can_source_block_be_processed d sb
                               then [block_nr sb] else [])"
proof (cases "gst_rs_fec_dec_can_source_block_be_processed d sb")
  case False
  with assms show ?thesis
    by (simp add: insert_process_and_prune_def prune_processing_log)
next
  case True
  let ?d0 = "d\<lparr>processing_log := processing_log d @ [block_nr sb]\<rparr>"
  from assms True obtain r1 d1 sb1 where
    pr: "gst_rs_fec_dec_process_source_block ?d0 sb = Inr (r1, d1, sb1)"
    by (cases "gst_rs_fec_dec_process_source_block ?d0 sb")
       (auto simp: insert_process_and_prune_def)
  have l1: "processing_log d1 = processing_log d @ [block_nr sb]"
    using same_core_fields(1) [OF process_source_block_same_core [OF pr]] by simp
  let ?d2 = "if \<not> sort_output d1
             then d1\<lparr>source_block_table := AList.delete nr (source_block_table d1)\<rparr>
             else store_source_block d1 sb1"
  have l2: "processing_log ?d2 = processing_log d @ [block_nr sb]"
    using l1 by (simp add: store_source_block_def)
  from assms True pr have
    "(if r1 = GST_FLOW_OK then gst_rs_fec_dec_prune_source_block_table ?d2 nr else Inr (r1, ?d2))
       = Inr (ret, d')"
    by (simp add: insert_process_and_prune_def Let_def)
  then have "processing_log d' = processing_log ?d2"
    by (auto split: if_splits dest: prune_processing_log)
  with l2 True show ?thesis by simp
qed

section \<open>Decoder: when processing is attempted\<close>

lemma SET_FLAG_fields:
  "num_source_packets (SOURCE_BLOCK_SET_FLAG sb i) = num_source_packets sb"
  "num_repair_packets (SOURCE_BLOCK_SET_FLAG sb i) = num_repair_packets sb"
  "block_nr (SOURCE_BLOCK_SET_FLAG sb i) = block_nr sb"
  "source_packets (SOURCE_BLOCK_SET_FLAG sb i) = source_packets sb"
  "repair_packets (SOURCE_BLOCK_SET_FLAG sb i) = repair_packets sb"
  "output_adu_table (SOURCE_BLOCK_SET_FLAG sb i) = output_adu_table sb"
  "is_complete (SOURCE_BLOCK_SET_FLAG sb i) = is_complete sb"
  by (simp_all add: SOURCE_BLOCK_SET_FLAG_def)

text \<open>
  C5 (amended). An insert operation attempts processing (the log line "source block can
  be processed now", followed by \<open>gst_rs_fec_dec_process_source_block\<close>) exactly when the
  packet is added to its block, the block's total of source and repair packets,
  counting the new packet, is at least \<open>k\<close>, and the immediate push of the packet's ADU
  was not refused. So the packet that brings the total to \<open>k\<close> triggers processing, an
  insertion that leaves the total below \<open>k\<close> does not, and a discarded packet never
  does. When the immediate push is refused, the insertion returns the refusal: the
  packet stays in its block, counted, and the block is neither processed nor complete.
\<close>

theorem C5_processing_threshold:
  assumes ins: "gst_rs_fec_dec_insert_fec_packet d fec_packet is_source_packet = Inr (ret, d')"
  shows "processing_log d' =
           processing_log d @
             (if packet_added d fec_packet is_source_packet
                 \<and> \<not> immediate_push_refused d fec_packet is_source_packet
                 \<and> num_source_packets (target_block d fec_packet is_source_packet)
                     + num_repair_packets (target_block d fec_packet is_source_packet) + 1
                     \<ge> num_source_symbols d
              then [block_nr (target_block d fec_packet is_source_packet)] else [])
       \<and> (packet_added d fec_packet is_source_packet
             \<and> immediate_push_refused d fec_packet is_source_packet \<longrightarrow>
           ret = fst (gst_rs_fec_dec_push_adu d (take (length fec_packet - 6) fec_packet))
           \<and> (\<exists>sb'. gst_rs_fec_dec_fetch_source_block d'
                        (block_nr (target_block d fec_packet is_source_packet)) = Some sb'
                  \<and> num_source_packets sb'
                      = num_source_packets (target_block d fec_packet is_source_packet) + 1
                  \<and> num_repair_packets sb'
                      = num_repair_packets (target_block d fec_packet is_source_packet)
                  \<and> \<not> is_complete sb'))"
proof -
  let ?T = "target_block d fec_packet is_source_packet"
  from ins have len: "\<not> length fec_packet < 6"
    by (auto simp: gst_rs_fec_dec_insert_fec_packet_def split: if_splits)
  obtain nr esi where ids: "packet_ids fec_packet is_source_packet = (nr, esi)"
    by (cases "packet_ids fec_packet is_source_packet")
  define d1 where "d1 = (case gst_rs_fec_dec_fetch_source_block d nr of
                           None \<Rightarrow> snd (gst_rs_fec_dec_create_source_block d nr) | Some sb \<Rightarrow> d)"
  have f: "(case gst_rs_fec_dec_fetch_source_block d nr of
              None \<Rightarrow> gst_rs_fec_dec_create_source_block d nr | Some sb \<Rightarrow> (sb, d)) = (?T, d1)"
    by (simp add: d1_def target_block_def ids split: option.splits)
  have d1: "processing_log d1 = processing_log d" "most_recent_block_nr d1 = most_recent_block_nr d"
    "max_source_block_age d1 = max_source_block_age d" "sort_output d1 = sort_output d"
    "num_source_symbols d1 = num_source_symbols d" "downstream d1 = downstream d"
    by (simp_all add: d1_def gst_rs_fec_dec_create_source_block_def Let_def split: option.splits)
  let ?recent = "gst_rs_fec_dec_is_source_block_nr_recent_enough nr
                   (most_recent_block_nr d) (max_source_block_age d)"
  let ?adu = "take (length fec_packet - 6) fec_packet"
  have added: "packet_added d fec_packet is_source_packet \<longleftrightarrow>
      ?recent \<and> \<not> is_complete ?T \<and> \<not> SOURCE_BLOCK_IS_FLAG_SET ?T esi"
    by (simp add: packet_added_def ids)
  have refused: "immediate_push_refused d fec_packet is_source_packet \<longleftrightarrow>
      is_source_packet \<and> \<not> sort_output d \<and> fst (gst_rs_fec_dec_push_adu d ?adu) \<noteq> GST_FLOW_OK"
    by (simp add: immediate_push_refused_def)
  have ids': "(if is_source_packet
              then gst_rs_fec_dec_source_packet_read_payload_id fec_packet
              else gst_rs_fec_dec_repair_packet_read_payload_id fec_packet) = (nr, esi)"
    using ids by (simp add: packet_ids_def)
  define adu where "adu = take (length fec_packet - 6) fec_packet"
  define sb1 where "sb1 = SOURCE_BLOCK_SET_FLAG ?T esi"
  define sb2r where "sb2r = sb1\<lparr>repair_packets := fec_packet # repair_packets sb1,
                              num_repair_packets := num_repair_packets sb1 + 1\<rparr>"
  define sb2 where "sb2 = sb1\<lparr>source_packets := fec_packet # source_packets sb1,
                              num_source_packets := num_source_packets sb1 + 1\<rparr>"
  define sb3 where "sb3 = sb2\<lparr>output_adu_table := (output_adu_table sb2)[esi := Some adu]\<rparr>"
  define d2 where "d2 = store_source_block d1 sb3"
  define d2r where "d2r = store_source_block d1 sb2r"
  have eq: "gst_rs_fec_dec_insert_fec_packet d fec_packet is_source_packet =
      (if \<not> ?recent then Inr (GST_FLOW_OK, d1)
       else if is_complete ?T then Inr (GST_FLOW_OK, d1)
       else if SOURCE_BLOCK_IS_FLAG_SET ?T esi then Inr (GST_FLOW_OK, d1)
       else if is_source_packet
       then (if \<not> esi < length (output_adu_table sb2) then Inl OutOfBounds
             else if \<not> sort_output d2
             then (case gst_rs_fec_dec_push_adu d2 adu of
                     (ret, d3) \<Rightarrow> if ret \<noteq> GST_FLOW_OK then Inr (ret, d3)
                                  else insert_process_and_prune d3 sb3 nr)
             else insert_process_and_prune d2 sb3 nr)
       else insert_process_and_prune d2r sb2r nr)"
    using len unfolding gst_rs_fec_dec_insert_fec_packet_def ids'
    by (simp add: f d1(2,3) Let_def adu_def sb1_def sb2r_def sb2_def sb3_def d2_def d2r_def
        split: prod.splits)
  note ins' = ins [unfolded eq]
  have d2: "processing_log d2 = processing_log d" "sort_output d2 = sort_output d"
    "num_source_symbols d2 = num_source_symbols d" "downstream d2 = downstream d"
    "processing_log d2r = processing_log d" "num_source_symbols d2r = num_source_symbols d"
    using d1 by (simp_all add: d2_def d2r_def store_source_block_def)
  have cnt: "num_source_packets sb3 + num_repair_packets sb3
               = num_source_packets ?T + num_repair_packets ?T + 1"
    "block_nr sb3 = block_nr ?T"
    "num_source_packets sb2r + num_repair_packets sb2r
               = num_source_packets ?T + num_repair_packets ?T + 1"
    "block_nr sb2r = block_nr ?T"
    by (simp_all add: sb3_def sb2_def sb2r_def sb1_def SET_FLAG_fields)
  have log: "processing_log d' =
           processing_log d @
             (if packet_added d fec_packet is_source_packet
                 \<and> \<not> immediate_push_refused d fec_packet is_source_packet
                 \<and> num_source_packets ?T + num_repair_packets ?T + 1 \<ge> num_source_symbols d
              then [block_nr ?T] else [])"
  proof (cases "?recent \<and> \<not> is_complete ?T \<and> \<not> SOURCE_BLOCK_IS_FLAG_SET ?T esi")
    case False
    with ins' have "d' = d1"
      by (auto split: if_splits)
    with False added d1 show ?thesis by auto
  next
    case ok: True
    show ?thesis
    proof (cases is_source_packet)
      case rep: False
      from ins' ok rep have "insert_process_and_prune d2r sb2r nr = Inr (ret, d')"
        by simp
      from insert_process_and_prune_log [OF this] show ?thesis
        using ok rep added refused d2 cnt
        by (simp add: gst_rs_fec_dec_can_source_block_be_processed_def)
    next
      case src: True
      from ins' ok src have inb: "esi < length (output_adu_table sb2)"
        by (auto split: if_splits)
      show ?thesis
      proof (cases "sort_output d")
        case True
        with ins' ok src inb have "insert_process_and_prune d2 sb3 nr = Inr (ret, d')"
          by (simp add: d2)
        from insert_process_and_prune_log [OF this] show ?thesis
          using ok src added refused d2 cnt True
          by (simp add: gst_rs_fec_dec_can_source_block_be_processed_def)
      next
        case nosort: False
        obtain r3 d3 where p: "gst_rs_fec_dec_push_adu d2 adu = (r3, d3)"
          by (cases "gst_rs_fec_dec_push_adu d2 adu")
        have r3: "fst (gst_rs_fec_dec_push_adu d ?adu) = r3"
          using p d2(4) by (auto simp: gst_rs_fec_dec_push_adu_def gst_pad_push_def Let_def adu_def)
        have sc: "same_core d2 d3" using p by (rule push_adu_same_core)
        have d3: "processing_log d3 = processing_log d" "num_source_symbols d3 = num_source_symbols d"
          using same_core_fields(1,4) [OF sc] d2 by simp_all
        show ?thesis
        proof (cases "r3 = GST_FLOW_OK")
          case False
          with ins' ok src inb nosort p have "d' = d3"
            by (simp add: d2)
          with False r3 added refused src nosort d3 show ?thesis by auto
        next
          case True
          with ins' ok src inb nosort p
          have "insert_process_and_prune d3 sb3 nr = Inr (ret, d')"
            by (simp add: d2)
          from insert_process_and_prune_log [OF this] show ?thesis
            using ok src added refused d3 cnt nosort True r3
            by (simp add: gst_rs_fec_dec_can_source_block_be_processed_def)
        qed
      qed
    qed
  qed
  have kept: "ret = fst (gst_rs_fec_dec_push_adu d ?adu)
           \<and> (\<exists>sb'. gst_rs_fec_dec_fetch_source_block d' (block_nr ?T) = Some sb'
                  \<and> num_source_packets sb' = num_source_packets ?T + 1
                  \<and> num_repair_packets sb' = num_repair_packets ?T
                  \<and> \<not> is_complete sb')"
    if pa: "packet_added d fec_packet is_source_packet"
      and re: "immediate_push_refused d fec_packet is_source_packet"
  proof -
    from pa added have ok: "?recent" "\<not> is_complete ?T" "\<not> SOURCE_BLOCK_IS_FLAG_SET ?T esi"
      by simp_all
    from re refused have src: is_source_packet and nosort: "\<not> sort_output d"
      and bad: "fst (gst_rs_fec_dec_push_adu d ?adu) \<noteq> GST_FLOW_OK"
      by simp_all
    from ins' ok src have inb: "esi < length (output_adu_table sb2)"
      by (auto split: if_splits)
    obtain r3 d3 where p: "gst_rs_fec_dec_push_adu d2 adu = (r3, d3)"
      by (cases "gst_rs_fec_dec_push_adu d2 adu")
    have r3: "fst (gst_rs_fec_dec_push_adu d ?adu) = r3"
      using p d2(4) by (auto simp: gst_rs_fec_dec_push_adu_def gst_pad_push_def Let_def adu_def)
    from ins' ok src inb nosort p bad r3 have res: "ret = r3" "d' = d3"
      by (simp_all add: d2)
    have sc: "same_core d2 d3" using p by (rule push_adu_same_core)
    have "source_block_table d3 = AList.update (block_nr sb3) sb3 (source_block_table d1)"
      using same_core_fields(2) [OF sc] by (simp add: d2_def store_source_block_def)
    then have "gst_rs_fec_dec_fetch_source_block d3 (block_nr ?T) = Some sb3"
      by (simp add: gst_rs_fec_dec_fetch_source_block_def AList.update_conv' cnt(2))
    moreover have "num_source_packets sb3 = num_source_packets ?T + 1"
      "num_repair_packets sb3 = num_repair_packets ?T" "\<not> is_complete sb3"
      using ok(2) by (simp_all add: sb3_def sb2_def sb1_def SET_FLAG_fields)
    ultimately show ?thesis using res r3 by simp
  qed
  from log kept show ?thesis by blast
qed



lemma dec_run_snoc:
  "dec_run d (ps @ [(p, s)]) =
     (case dec_run d ps of
        Inl f \<Rightarrow> Inl f
      | Inr d1 \<Rightarrow> (case gst_rs_fec_dec_insert_fec_packet d1 p s of
                     Inl f \<Rightarrow> Inl f | Inr (ret, d2) \<Rightarrow> Inr d2))"
  by (induction ps arbitrary: d) (auto split: sum.splits prod.splits)

lemma after_packets_step:
  assumes "case dec_run d (ps @ [(p, s)]) of Inr _ \<Rightarrow> True | Inl _ \<Rightarrow> False"
  shows "\<exists>ret. gst_rs_fec_dec_insert_fec_packet (after_packets d ps) p s
                 = Inr (ret, after_packets d (ps @ [(p, s)]))"
  using assms unfolding after_packets_def dec_run_snoc
  by (auto split: sum.splits prod.splits)

theorem C5_processing_threshold_witness:
  "(\<exists>ret. gst_rs_fec_dec_insert_fec_packet
            (after_packets default_decoder
               [(packet_block5_esi0, True), (packet_block5_esi1, True), (packet_block5_esi2, True)])
            packet_block5_esi3 True
          = Inr (ret, after_packets default_decoder
               [(packet_block5_esi0, True), (packet_block5_esi1, True), (packet_block5_esi2, True),
                (packet_block5_esi3, True)]))
   \<and> processing_log (after_packets default_decoder
        [(packet_block5_esi0, True), (packet_block5_esi1, True), (packet_block5_esi2, True)]) = []
   \<and> processing_log (after_packets default_decoder
        [(packet_block5_esi0, True), (packet_block5_esi1, True), (packet_block5_esi2, True),
         (packet_block5_esi3, True)]) = [5]
   \<and> packet_added (after_packets default_decoder
        [(packet_block5_esi0, True), (packet_block5_esi1, True), (packet_block5_esi2, True)])
        packet_block5_esi3 True
   \<and> \<not> immediate_push_refused (after_packets default_decoder
        [(packet_block5_esi0, True), (packet_block5_esi1, True), (packet_block5_esi2, True)])
        packet_block5_esi3 True
   \<and> packet_added immediate_decoder packet_block0 True
   \<and> immediate_push_refused immediate_decoder packet_block0 True
   \<and> gst_rs_fec_dec_insert_fec_packet immediate_decoder packet_block0 True
       = Inr (GST_FLOW_ERROR, after_packets immediate_decoder [(packet_block0, True)])
   \<and> processing_log (after_packets immediate_decoder [(packet_block0, True)]) = []
   \<and> (\<exists>sb'. gst_rs_fec_dec_fetch_source_block
               (after_packets immediate_decoder [(packet_block0, True)]) 0 = Some sb'
           \<and> num_source_packets sb' = 1 \<and> num_repair_packets sb' = 0 \<and> \<not> is_complete sb')"
proof -
  let ?ps = "[(packet_block5_esi0, True), (packet_block5_esi1, True), (packet_block5_esi2, True)]"
  let ?d3 = "after_packets default_decoder ?ps"
  let ?d4 = "after_packets default_decoder (?ps @ [(packet_block5_esi3, True)])"
  have "case dec_run default_decoder (?ps @ [(packet_block5_esi3, True)]) of
          Inr _ \<Rightarrow> True | Inl _ \<Rightarrow> False"
    by code_simp
  from after_packets_step [OF this] obtain ret where
    ins: "gst_rs_fec_dec_insert_fec_packet ?d3 packet_block5_esi3 True = Inr (ret, ?d4)"
    by blast
  have l3: "processing_log ?d3 = []" by code_simp
  have added: "packet_added ?d3 packet_block5_esi3 True" by code_simp
  have nref: "\<not> immediate_push_refused ?d3 packet_block5_esi3 True" by code_simp
  have tot: "num_source_packets (target_block ?d3 packet_block5_esi3 True)
               + num_repair_packets (target_block ?d3 packet_block5_esi3 True) + 1
             \<ge> num_source_symbols ?d3"
    by code_simp
  have nr: "block_nr (target_block ?d3 packet_block5_esi3 True) = 5" by code_simp
  from C5_processing_threshold [OF ins] l3 added nref tot nr
  have log4: "processing_log ?d4 = [5]" by simp
  let ?i = "immediate_decoder"
  let ?i1 = "after_packets immediate_decoder ([] @ [(packet_block0, True)])"
  have "case dec_run ?i ([] @ [(packet_block0, True)]) of Inr _ \<Rightarrow> True | Inl _ \<Rightarrow> False"
    by code_simp
  from after_packets_step [OF this] obtain ret0 where
    "gst_rs_fec_dec_insert_fec_packet (after_packets ?i []) packet_block0 True = Inr (ret0, ?i1)"
    by blast
  then have ins0: "gst_rs_fec_dec_insert_fec_packet ?i packet_block0 True = Inr (ret0, ?i1)"
    by (simp add: after_packets_def)
  have added0: "packet_added ?i packet_block0 True" by code_simp
  have ref0: "immediate_push_refused ?i packet_block0 True" by code_simp
  have l0: "processing_log ?i = []" by code_simp
  have t0: "block_nr (target_block ?i packet_block0 True) = 0"
    "num_source_packets (target_block ?i packet_block0 True) = 0"
    "num_repair_packets (target_block ?i packet_block0 True) = 0"
    by code_simp+
  have p0: "fst (gst_rs_fec_dec_push_adu ?i (take (length packet_block0 - 6) packet_block0))
              = GST_FLOW_ERROR"
    by code_simp
  from C5_processing_threshold [OF ins0] added0 ref0 l0 t0 p0
  have r0: "ret0 = GST_FLOW_ERROR"
    and log0: "processing_log ?i1 = []"
    and sb0: "\<exists>sb'. gst_rs_fec_dec_fetch_source_block ?i1 0 = Some sb'
           \<and> num_source_packets sb' = 1 \<and> num_repair_packets sb' = 0 \<and> \<not> is_complete sb'"
    by simp_all
  from ins l3 log4 added nref ins0 r0 log0 sb0 added0 ref0 show ?thesis by auto
qed

text \<open>
  C5 as stated fails when the immediate push is refused. With \<open>k = 1\<close>, unsorted output
  and a downstream peer that refuses the buffer, the only source packet of block 0 is
  added to its block and brings the total to \<open>k\<close>, yet the insertion returns
  \<open>GST_FLOW_ERROR\<close> without attempting to process the block, which stays in the table
  incomplete.
\<close>

theorem C5_refused_push_counterexample:
  "num_source_symbols immediate_decoder = 1
   \<and> gst_rs_fec_dec_fetch_source_block immediate_decoder 0 = None
   \<and> (case gst_rs_fec_dec_insert_fec_packet immediate_decoder packet_block0 True of
         Inl f \<Rightarrow> False
       | Inr (ret, d') \<Rightarrow>
           ret = GST_FLOW_ERROR
           \<and> processing_log d' = []
           \<and> (case gst_rs_fec_dec_fetch_source_block d' 0 of
                 None \<Rightarrow> False
               | Some sb \<Rightarrow>
                   source_packets sb = [packet_block0]
                   \<and> num_source_packets sb + num_repair_packets sb = 1
                   \<and> gst_rs_fec_dec_can_source_block_be_processed d' sb
                   \<and> \<not> is_complete sb))"
  by code_simp

section \<open>Decoder: blocks completed by their source packets alone\<close>

lemma distinct_below_all:
  fixes es :: "nat list"
  assumes d: "distinct es" and b: "\<forall>e \<in> set es. e < k" and l: "k \<le> length es"
  shows "length es = k \<and> set es = {..<k}"
proof -
  have sub: "set es \<subseteq> {..<k}" using b by auto
  have c: "card (set es) = length es" using d by (rule distinct_card)
  have "card (set es) \<le> card {..<k}" using sub by (intro card_mono) auto
  then have le: "length es \<le> k" using c by simp
  with l have len: "length es = k" by simp
  have "card (set es) = card {..<k}" using c len by simp
  with sub have "set es = {..<k}" by (intro card_subset_eq) auto
  with len show ?thesis by simp
qed

lemma source_esi_lt: "source_esi p < 256"
proof -
  have "unat (p ! (length p - 3)) < 2 ^ LENGTH(8)" by (rule unsigned_less)
  then show ?thesis
    by (simp add: source_esi_def gst_rs_fec_dec_source_packet_read_payload_id_def)
qed

lemma flag_bit:
  "SOURCE_BLOCK_IS_FLAG_SET sb j \<longleftrightarrow> bit (packet_mask sb ! drop_bit 6 j) (j AND 63)"
  by (simp add: SOURCE_BLOCK_IS_FLAG_SET_def bit_iff_and_push_bit_not_eq_0)

lemma and_63_lt: "(j :: nat) AND 63 < 64"
proof -
  have "j AND mask 6 = j mod 2 ^ 6"
    by (simp add: take_bit_eq_mask [symmetric] take_bit_eq_mod)
  moreover have "(63 :: nat) = mask 6" by (simp add: mask_eq_exp_minus_1)
  ultimately have "j AND 63 = j mod 64" by simp
  then show ?thesis by simp
qed

lemma flag_set_after_set:
  assumes "drop_bit 6 i < length (packet_mask sb)"
  shows "SOURCE_BLOCK_IS_FLAG_SET (SOURCE_BLOCK_SET_FLAG sb i) i"
  using assms and_63_lt [of i]
  by (simp add: flag_bit SOURCE_BLOCK_SET_FLAG_def bit_simps)

lemma flag_set_mono:
  assumes "SOURCE_BLOCK_IS_FLAG_SET sb j"
  shows "SOURCE_BLOCK_IS_FLAG_SET (SOURCE_BLOCK_SET_FLAG sb i) j"
proof (cases "drop_bit 6 j = drop_bit 6 i \<and> drop_bit 6 i < length (packet_mask sb)")
  case True
  with assms show ?thesis
    by (simp add: flag_bit SOURCE_BLOCK_SET_FLAG_def bit_simps)
next
  case False
  then have "(packet_mask sb)[drop_bit 6 i := v] ! drop_bit 6 j = packet_mask sb ! drop_bit 6 j" for v
    by (cases "drop_bit 6 j = drop_bit 6 i") (auto simp: list_update_beyond)
  with assms show ?thesis
    by (simp add: flag_bit SOURCE_BLOCK_SET_FLAG_def)
qed

lemma with_source_packet_fields:
  "block_nr (with_source_packet sb p) = block_nr sb"
  "source_packets (with_source_packet sb p) = p # source_packets sb"
  "repair_packets (with_source_packet sb p) = repair_packets sb"
  "num_source_packets (with_source_packet sb p) = num_source_packets sb + 1"
  "num_repair_packets (with_source_packet sb p) = num_repair_packets sb"
  "is_complete (with_source_packet sb p) = is_complete sb"
  "output_adu_table (with_source_packet sb p)
     = (output_adu_table sb)[source_esi p := Some (take (length p - 6) p)]"
  "packet_mask (with_source_packet sb p) = packet_mask (SOURCE_BLOCK_SET_FLAG sb (source_esi p))"
  by (simp_all add: with_source_packet_def Let_def SET_FLAG_fields)

lemma flag_with_source_packet:
  "SOURCE_BLOCK_IS_FLAG_SET (with_source_packet sb p) j
     = SOURCE_BLOCK_IS_FLAG_SET (SOURCE_BLOCK_SET_FLAG sb (source_esi p)) j"
  by (simp add: SOURCE_BLOCK_IS_FLAG_SET_def with_source_packet_fields)

lemma with_source_packet_ok:
  assumes ok: "source_block_ok k sb"
    and len: "6 \<le> length p"
    and esi: "source_esi p < k"
    and nf: "\<not> SOURCE_BLOCK_IS_FLAG_SET sb (source_esi p)"
  shows "source_block_ok k (with_source_packet sb p)"
proof -
  from ok have lo: "length (output_adu_table sb) = k" and lm: "length (packet_mask sb) = 8"
    and cnt: "num_source_packets sb = length (source_packets sb)"
    and dist: "distinct (map source_esi (source_packets sb))"
    and each: "\<forall>q \<in> set (source_packets sb).
           6 \<le> length q \<and> source_esi q < k \<and> SOURCE_BLOCK_IS_FLAG_SET sb (source_esi q)
           \<and> output_adu_table sb ! source_esi q = Some (take (length q - 6) q)"
    by (simp_all add: source_block_ok_def)
  have new: "source_esi p \<notin> set (map source_esi (source_packets sb))"
    using each nf by auto
  have w: "drop_bit 6 (source_esi p) < length (packet_mask sb)"
  proof -
    have "source_esi p div 64 < 4" using source_esi_lt [of p] by simp
    then show ?thesis by (simp add: lm drop_bit_eq_div)
  qed
  have 1: "length (output_adu_table (with_source_packet sb p)) = k"
    by (simp add: with_source_packet_fields lo)
  have 2: "length (packet_mask (with_source_packet sb p)) = 8"
    by (simp add: with_source_packet_fields SOURCE_BLOCK_SET_FLAG_def lm)
  have 3: "num_source_packets (with_source_packet sb p)
             = length (source_packets (with_source_packet sb p))"
    by (simp add: with_source_packet_fields cnt)
  have 4: "distinct (map source_esi (source_packets (with_source_packet sb p)))"
    using dist new by (simp add: with_source_packet_fields)
  have 5: "6 \<le> length q \<and> source_esi q < k
           \<and> SOURCE_BLOCK_IS_FLAG_SET (with_source_packet sb p) (source_esi q)
           \<and> output_adu_table (with_source_packet sb p) ! source_esi q = Some (take (length q - 6) q)"
    if q: "q \<in> set (source_packets (with_source_packet sb p))" for q
  proof (cases "q = p")
    case True
    then show ?thesis
      using len esi lo flag_set_after_set [OF w]
      by (simp add: flag_with_source_packet with_source_packet_fields)
  next
    case False
    with q have qin: "q \<in> set (source_packets sb)" by (simp add: with_source_packet_fields)
    with each have old: "6 \<le> length q" "source_esi q < k"
      "SOURCE_BLOCK_IS_FLAG_SET sb (source_esi q)"
      "output_adu_table sb ! source_esi q = Some (take (length q - 6) q)"
      by simp_all
    from qin have "source_esi q \<in> set (map source_esi (source_packets sb))" by simp
    with new have ne: "source_esi q \<noteq> source_esi p" by metis
    show ?thesis
      using old ne flag_set_mono [OF old(3)]
      by (simp add: flag_with_source_packet with_source_packet_fields)
  qed
  from 1 2 3 4 5 show ?thesis unfolding source_block_ok_def by blast
qed

lemma fresh_block_ok:
  "source_block_ok (num_source_symbols d) (fst (gst_rs_fec_dec_create_source_block d nr))"
  by (simp add: gst_rs_fec_dec_create_source_block_def Let_def source_block_ok_def)

lemma insert_cases:
  assumes len: "6 \<le> length p"
    and ids: "packet_ids p s = (nr, esi)"
    and T: "T = target_block d p s"
    and d1: "d1 = (case gst_rs_fec_dec_fetch_source_block d nr of
                     None \<Rightarrow> snd (gst_rs_fec_dec_create_source_block d nr) | Some sb \<Rightarrow> d)"
    and B: "B = with_source_packet T p"
    and R: "R = (SOURCE_BLOCK_SET_FLAG T esi)
                  \<lparr>repair_packets := p # repair_packets (SOURCE_BLOCK_SET_FLAG T esi),
                   num_repair_packets := num_repair_packets (SOURCE_BLOCK_SET_FLAG T esi) + 1\<rparr>"
  shows "gst_rs_fec_dec_insert_fec_packet d p s =
      (if \<not> gst_rs_fec_dec_is_source_block_nr_recent_enough nr
              (most_recent_block_nr d) (max_source_block_age d)
          \<or> is_complete T \<or> SOURCE_BLOCK_IS_FLAG_SET T esi
       then Inr (GST_FLOW_OK, d1)
       else if s
       then (if \<not> esi < length (output_adu_table T) then Inl OutOfBounds
             else if sort_output d
             then insert_process_and_prune (store_source_block d1 B) B nr
             else (case gst_rs_fec_dec_push_adu (store_source_block d1 B) (take (length p - 6) p) of
                     (ret, d3) \<Rightarrow> if ret \<noteq> GST_FLOW_OK then Inr (ret, d3)
                                  else insert_process_and_prune d3 B nr))
       else insert_process_and_prune (store_source_block d1 R) R nr)"
proof -
  have f: "(case gst_rs_fec_dec_fetch_source_block d nr of
              None \<Rightarrow> gst_rs_fec_dec_create_source_block d nr | Some sb \<Rightarrow> (sb, d)) = (T, d1)"
    by (simp add: d1 T target_block_def ids split: option.splits)
  have d1f: "most_recent_block_nr d1 = most_recent_block_nr d"
    "max_source_block_age d1 = max_source_block_age d" "sort_output d1 = sort_output d"
    by (simp_all add: d1 gst_rs_fec_dec_create_source_block_def Let_def split: option.splits)
  have ids': "(if s
              then gst_rs_fec_dec_source_packet_read_payload_id p
              else gst_rs_fec_dec_repair_packet_read_payload_id p) = (nr, esi)"
    using ids by (simp add: packet_ids_def)
  have so: "sort_output (store_source_block d1 x) = sort_output d" for x
    by (simp add: store_source_block_def d1f)
  show ?thesis
  proof (cases s)
    case False
    show ?thesis
      using len False unfolding gst_rs_fec_dec_insert_fec_packet_def ids'
      by (simp add: f d1f Let_def R split: prod.splits)
  next
    case True
    with ids have e: "esi = source_esi p"
      by (simp add: packet_ids_def source_esi_def)
    have B': "B = (SOURCE_BLOCK_SET_FLAG T esi)
                \<lparr>source_packets := p # source_packets (SOURCE_BLOCK_SET_FLAG T esi),
                 num_source_packets := num_source_packets (SOURCE_BLOCK_SET_FLAG T esi) + 1,
                 output_adu_table := (output_adu_table (SOURCE_BLOCK_SET_FLAG T esi))
                    [esi := Some (take (length p - 6) p)]\<rparr>"
      by (simp add: B with_source_packet_def Let_def e)
    show ?thesis
      using len True unfolding gst_rs_fec_dec_insert_fec_packet_def ids'
      by (simp add: f d1f so Let_def B' SET_FLAG_fields split: prod.splits)
  qed
qed

lemma set_update_cases:
  "x \<in> set (AList.update k v al) \<Longrightarrow> x = (k, v) \<or> x \<in> set al"
  by (induction al) (auto split: if_splits)

lemma table_ok_empty: "source_block_table d = [] \<Longrightarrow> table_ok d"
  by (simp add: table_ok_def)

lemma table_ok_store:
  assumes "table_ok d"
    and "num_repair_packets sb = 0 \<and> \<not> is_complete sb
           \<Longrightarrow> source_block_ok (num_source_symbols d) sb"
  shows "table_ok (store_source_block d sb)"
  using assms unfolding table_ok_def store_source_block_def
  by (auto dest!: set_update_cases)

lemma table_ok_create:
  assumes "table_ok d"
  shows "table_ok (snd (gst_rs_fec_dec_create_source_block d nr))"
  using assms fresh_block_ok [of d nr]
  unfolding table_ok_def gst_rs_fec_dec_create_source_block_def
  by (auto simp: Let_def dest!: set_update_cases)

lemma table_ok_subset:
  assumes "table_ok d" and "set (source_block_table d') \<subseteq> set (source_block_table d)"
    and "num_source_symbols d' = num_source_symbols d"
  shows "table_ok d'"
  using assms unfolding table_ok_def by auto

lemma table_ok_same_core:
  assumes "same_core d d'" and "table_ok d"
  shows "table_ok d'"
  using assms(2) same_core_fields(2,4) [OF assms(1)] by (simp add: table_ok_def)

lemma prune_first:
  assumes pr: "gst_rs_fec_dec_prune_source_block_table d nr = Inr (ret, d')" and first: "first_pruning d"
  shows "d' = d\<lparr>most_recent_block_nr := nr, first_pruning := False\<rparr>"
  using pr first by (simp add: gst_rs_fec_dec_prune_source_block_table_def)

lemma prune_same:
  assumes pr: "gst_rs_fec_dec_prune_source_block_table d nr = Inr (ret, d')"
    and same: "\<not> first_pruning d" "nr = most_recent_block_nr d
        \<or> \<not> gst_rs_fec_dec_is_source_block_nr_newer nr (most_recent_block_nr d)"
  shows "d' = d"
proof -
  from same have "gst_rs_fec_dec_prune_source_block_table d nr = Inr (GST_FLOW_OK, d)"
    unfolding gst_rs_fec_dec_prune_source_block_table_def by auto
  with pr show ?thesis by simp
qed

lemma prune_newer:
  assumes newer: "\<not> first_pruning d" "nr \<noteq> most_recent_block_nr d"
        "gst_rs_fec_dec_is_source_block_nr_newer nr (most_recent_block_nr d)"
  shows "\<exists>d2 sbs. gst_rs_fec_dec_prune_source_block_table d nr = push_pruned_blocks d2 sbs GST_FLOW_OK
           \<and> set (source_block_table d2) \<subseteq> set (source_block_table d)
           \<and> num_source_symbols d2 = num_source_symbols d
           \<and> openfec d2 = openfec d"
  unfolding gst_rs_fec_dec_prune_source_block_table_def Let_def
  apply (simp only: newer if_False if_True simp_thms)
  apply (intro exI conjI)
     apply (rule refl)
    apply simp
   apply simp
  apply simp
  done

lemma prune_table_ok:
  assumes pr: "gst_rs_fec_dec_prune_source_block_table d nr = Inr (ret, d')" and ok: "table_ok d"
  shows "table_ok d' \<and> num_source_symbols d' = num_source_symbols d"
proof (cases "first_pruning d")
  case True
  from prune_first [OF pr True] ok show ?thesis by (simp add: table_ok_def)
next
  case nf: False
  show ?thesis
  proof (cases "nr \<noteq> most_recent_block_nr d
        \<and> gst_rs_fec_dec_is_source_block_nr_newer nr (most_recent_block_nr d)")
    case False
    then have "nr = most_recent_block_nr d
        \<or> \<not> gst_rs_fec_dec_is_source_block_nr_newer nr (most_recent_block_nr d)" by blast
    from prune_same [OF pr nf this] ok show ?thesis by simp
  next
    case True
    then have n: "nr \<noteq> most_recent_block_nr d"
      "gst_rs_fec_dec_is_source_block_nr_newer nr (most_recent_block_nr d)" by simp_all
    from prune_newer [OF nf n] obtain d2 sbs where
      eq: "gst_rs_fec_dec_prune_source_block_table d nr = push_pruned_blocks d2 sbs GST_FLOW_OK"
      and sub: "set (source_block_table d2) \<subseteq> set (source_block_table d)"
      and k: "num_source_symbols d2 = num_source_symbols d"
      by blast
    from pr eq have pp: "push_pruned_blocks d2 sbs GST_FLOW_OK = Inr (ret, d')" by simp
    have ok2: "table_ok d2" using ok sub k by (rule table_ok_subset)
    note sc = push_pruned_blocks_same_core [OF pp]
    from table_ok_same_core [OF sc ok2] same_core_fields(4) [OF sc] k show ?thesis by simp
  qed
qed

lemma process_source_block_failed_block:
  "process_source_block_failed d status sb = Inr (ret, d', sb') \<Longrightarrow> sb' = sb"
  unfolding process_source_block_failed_def by (auto split: prod.splits)

lemma process_source_block_repairs:
  assumes "gst_rs_fec_dec_process_source_block d sb = Inr (ret, d', sb')"
  shows "num_repair_packets sb' = num_repair_packets sb
       \<and> (num_repair_packets sb = 0 \<longrightarrow> sb' = sb\<lparr>is_complete := True\<rparr>)"
proof (cases "num_repair_packets sb = 0")
  case True
  with assms show ?thesis
    by (auto simp: gst_rs_fec_dec_process_source_block_def split: if_splits)
next
  case False
  with assms obtain first_repair rest where rp: "repair_packets sb = first_repair # rest"
    by (cases "repair_packets sb") (auto simp: gst_rs_fec_dec_process_source_block_def)
  define len where "len = length first_repair - 6"
  obtain session d1 where cs: "gst_rs_fec_dec_create_openfec_session d len = (session, d1)"
    by (cases "gst_rs_fec_dec_create_openfec_session d len")
  show ?thesis
  proof (cases session)
    case nos: False
    with assms False rp cs have "sb' = sb"
      by (simp add: gst_rs_fec_dec_process_source_block_def len_def)
    with False show ?thesis by simp
  next
    case True
    from assms False rp cs True obtain received1 out1 where
      sp: "process_source_packets d1 len (source_packets sb)
             (replicate (num_encoding_symbols d1) None) (output_adu_table sb) = Inr (received1, out1)"
      by (cases "process_source_packets d1 len (source_packets sb)
             (replicate (num_encoding_symbols d1) None) (output_adu_table sb)")
         (auto simp: gst_rs_fec_dec_process_source_block_def len_def)
    from assms False rp cs True sp obtain received where
      rpk: "process_repair_packets d1 (repair_packets sb) 0 received1 = Inr received"
      by (cases "process_repair_packets d1 (first_repair # rest) 0 received1")
         (auto simp: gst_rs_fec_dec_process_source_block_def len_def)
    obtain st2 d2 where o2: "of_step d1 (OF_set_available_symbols received) = (st2, d2)"
      by (cases "of_step d1 (OF_set_available_symbols received)")
    obtain st3 d3 where o3: "of_step d2 OF_finish_decoding = (st3, d3)"
      by (cases "of_step d2 OF_finish_decoding")
    obtain st4 d4 where o4: "of_step d3 OF_get_source_symbols_tab = (st4, d4)"
      by (cases "of_step d3 OF_get_source_symbols_tab")
    note unf = gst_rs_fec_dec_process_source_block_def len_def [symmetric]
    from rpk rp have rpk': "process_repair_packets d1 (first_repair # rest) 0 received1 = Inr received"
      by simp
    have "num_repair_packets sb' = num_repair_packets sb"
    proof (cases "st2 \<noteq> OF_STATUS_OK")
      case True
      with assms False rp cs \<open>session\<close> sp rpk' o2
      have "process_source_block_failed d2 st2 (sb\<lparr>output_adu_table := out1\<rparr>) = Inr (ret, d', sb')"
        by (simp add: unf)
      from process_source_block_failed_block [OF this] show ?thesis by simp
    next
      case ok2: False
      show ?thesis
      proof (cases "st3 \<noteq> OF_STATUS_OK")
        case True
        with assms False rp cs \<open>session\<close> sp rpk' o2 ok2 o3
        have "process_source_block_failed d3 st3 (sb\<lparr>output_adu_table := out1\<rparr>) = Inr (ret, d', sb')"
          by (simp add: unf)
        from process_source_block_failed_block [OF this] show ?thesis by simp
      next
        case ok3: False
        show ?thesis
        proof (cases "st4 \<noteq> OF_STATUS_OK")
          case True
          with assms False rp cs \<open>session\<close> sp rpk' o2 ok2 o3 ok3 o4
          have "process_source_block_failed d4 st4 (sb\<lparr>output_adu_table := out1\<rparr>) = Inr (ret, d', sb')"
            by (simp add: unf)
          from process_source_block_failed_block [OF this] show ?thesis by simp
        next
          case ok4: False
          from assms False rp cs \<open>session\<close> sp rpk' o2 ok2 o3 ok3 o4 ok4
          obtain finished out2 where
            "sb' = sb\<lparr>output_adu_table := out2,
                      is_complete := (finished \<or> is_complete sb)\<rparr>"
            by (auto simp: unf split: sum.splits prod.splits)
          then show ?thesis by simp
        qed
      qed
    qed
    with False show ?thesis by simp
  qed
qed

lemma insert_process_and_prune_cases:
  assumes ipp: "insert_process_and_prune d sb nr = Inr (ret, d')"
  shows "(\<not> gst_rs_fec_dec_can_source_block_be_processed d sb
            \<and> gst_rs_fec_dec_prune_source_block_table d nr = Inr (ret, d'))
       \<or> (\<exists>r1 d1 sb1 d2.
             gst_rs_fec_dec_can_source_block_be_processed d sb
             \<and> gst_rs_fec_dec_process_source_block
                  (d\<lparr>processing_log := processing_log d @ [block_nr sb]\<rparr>) sb = Inr (r1, d1, sb1)
             \<and> d2 = (if \<not> sort_output d1
                      then d1\<lparr>source_block_table := AList.delete nr (source_block_table d1)\<rparr>
                      else store_source_block d1 sb1)
             \<and> (if r1 = GST_FLOW_OK
                 then gst_rs_fec_dec_prune_source_block_table d2 nr = Inr (ret, d')
                 else ret = r1 \<and> d' = d2))"
proof (cases "gst_rs_fec_dec_can_source_block_be_processed d sb")
  case False
  with ipp show ?thesis by (simp add: insert_process_and_prune_def)
next
  case True
  let ?dl = "d\<lparr>processing_log := processing_log d @ [block_nr sb]\<rparr>"
  show ?thesis
  proof (cases "gst_rs_fec_dec_process_source_block ?dl sb")
    case (Inl f)
    with ipp True show ?thesis by (simp add: insert_process_and_prune_def)
  next
    case (Inr x)
    obtain r1 d1 sb1 where x: "x = (r1, d1, sb1)" by (cases x)
    show ?thesis
    proof (cases "r1 = GST_FLOW_OK")
      case ok: True
      with ipp True Inr x show ?thesis
        by (simp add: insert_process_and_prune_def Let_def)
    next
      case bad: False
      with ipp True Inr x show ?thesis
        by (simp add: insert_process_and_prune_def Let_def)
    qed
  qed
qed


lemma insert_process_and_prune_table_ok:
  assumes ipp: "insert_process_and_prune d sb nr = Inr (ret, d')" and ok: "table_ok d"
  shows "table_ok d' \<and> num_source_symbols d' = num_source_symbols d"
proof -
  from insert_process_and_prune_cases [OF ipp]
  consider (prune) "gst_rs_fec_dec_prune_source_block_table d nr = Inr (ret, d')"
    | (proc) r1 d1 sb1 d2 where
        "gst_rs_fec_dec_process_source_block
           (d\<lparr>processing_log := processing_log d @ [block_nr sb]\<rparr>) sb = Inr (r1, d1, sb1)"
        "d2 = (if \<not> sort_output d1
               then d1\<lparr>source_block_table := AList.delete nr (source_block_table d1)\<rparr>
               else store_source_block d1 sb1)"
        "if r1 = GST_FLOW_OK
         then gst_rs_fec_dec_prune_source_block_table d2 nr = Inr (ret, d')
         else ret = r1 \<and> d' = d2"
    by blast
  then show ?thesis
  proof cases
    case prune
    from prune_table_ok [OF this ok] show ?thesis .
  next
    case proc
    let ?dl = "d\<lparr>processing_log := processing_log d @ [block_nr sb]\<rparr>"
    have okl: "table_ok ?dl" using ok by (simp add: table_ok_def)
    note sc = process_source_block_same_core [OF proc(1)]
    have ok1: "table_ok d1" using sc okl by (rule table_ok_same_core)
    have k1: "num_source_symbols d1 = num_source_symbols d"
      using same_core_fields(4) [OF sc] by simp
    from process_source_block_repairs [OF proc(1)]
    have g: "\<not> (num_repair_packets sb1 = 0 \<and> \<not> is_complete sb1)" by auto
    have ok2: "table_ok d2"
    proof (cases "sort_output d1")
      case True
      then have "d2 = store_source_block d1 sb1" by (simp add: proc(2))
      moreover have "table_ok (store_source_block d1 sb1)"
        by (rule table_ok_store [OF ok1]) (use g in blast)
      ultimately show ?thesis by simp
    next
      case False
      then have d2: "d2 = d1\<lparr>source_block_table := AList.delete nr (source_block_table d1)\<rparr>"
        by (simp add: proc(2))
      have "set (source_block_table d2) \<subseteq> set (source_block_table d1)"
        unfolding d2 by (auto simp: AList.delete_eq)
      moreover have "num_source_symbols d2 = num_source_symbols d1" unfolding d2 by simp
      ultimately show ?thesis by (rule table_ok_subset [OF ok1])
    qed
    have k2: "num_source_symbols d2 = num_source_symbols d"
      using k1 by (simp add: proc(2) store_source_block_def)
    show ?thesis
    proof (cases "r1 = GST_FLOW_OK")
      case True
      with proc(3) have "gst_rs_fec_dec_prune_source_block_table d2 nr = Inr (ret, d')" by simp
      from prune_table_ok [OF this ok2] k2 show ?thesis by simp
    next
      case False
      with proc(3) have "d' = d2" by simp
      with ok2 k2 show ?thesis by simp
    qed
  qed
qed

lemma push_adu_openfec:
  "gst_rs_fec_dec_push_adu d adu = (ret, d') \<Longrightarrow> openfec d' = openfec d"
  by (auto simp: gst_rs_fec_dec_push_adu_def gst_pad_push_def Let_def)

lemma push_source_block_loop_openfec:
  "push_source_block_loop d adus push_adus ret = (ret', d') \<Longrightarrow> openfec d' = openfec d"
proof (induction d adus push_adus ret rule: push_source_block_loop.induct)
  case (1 d push_adus ret)
  then show ?case by simp
next
  case (2 d adus push_adus ret)
  then show ?case by simp
next
  case (3 d adu adus push_adus ret)
  show ?case
  proof (cases push_adus)
    case False
    with 3 show ?thesis by simp
  next
    case True
    obtain r1 d1 where p: "gst_rs_fec_dec_push_adu d adu = (r1, d1)" by (cases "gst_rs_fec_dec_push_adu d adu")
    have s1: "openfec d1 = openfec d" using p by (rule push_adu_openfec)
    show ?thesis
    proof (cases "r1 = GST_FLOW_OK")
      case ok: True
      have "openfec d' = openfec d1" using 3(2)[OF True p [symmetric] refl] 3(4) True p ok by simp
      with s1 show ?thesis by simp
    next
      case nok: False
      have "openfec d' = openfec d1" using 3(1)[OF True p [symmetric] refl] 3(4) True p nok by simp
      with s1 show ?thesis by simp
    qed
  qed
qed

lemma push_source_block_openfec:
  assumes "gst_rs_fec_dec_push_source_block d sb = (ret, d')"
  shows "openfec d' = openfec d"
proof -
  from assms have "openfec d' = openfec (gst_rs_fec_dec_push_segment (gst_rs_fec_dec_push_stream_start d))"
    unfolding gst_rs_fec_dec_push_source_block_def by (rule push_source_block_loop_openfec)
  then show ?thesis
    by (simp add: gst_rs_fec_dec_push_segment_def gst_rs_fec_dec_push_stream_start_def)
qed

lemma push_pruned_blocks_openfec:
  "push_pruned_blocks d sbs ret = Inr (ret', d') \<Longrightarrow> openfec d' = openfec d"
proof (induction sbs arbitrary: d ret)
  case Nil
  then show ?case by simp
next
  case (Cons sb sbs)
  from Cons.prems have so: "sort_output d" by (auto split: if_splits)
  show ?case
  proof (cases "ret = GST_FLOW_OK")
    case True
    obtain r1 d1 where p: "gst_rs_fec_dec_push_source_block d sb = (r1, d1)"
      by (cases "gst_rs_fec_dec_push_source_block d sb")
    have "openfec d' = openfec d1" using Cons.prems so True p by (intro Cons.IH [of d1 r1]) simp
    with push_source_block_openfec [OF p] show ?thesis by simp
  next
    case False
    with Cons.prems so show ?thesis by (intro Cons.IH [of d ret]) simp
  qed
qed

lemma prune_openfec:
  assumes pr: "gst_rs_fec_dec_prune_source_block_table d nr = Inr (ret, d')"
  shows "openfec d' = openfec d"
proof (cases "first_pruning d")
  case True
  from prune_first [OF pr True] show ?thesis by simp
next
  case nf: False
  show ?thesis
  proof (cases "nr \<noteq> most_recent_block_nr d
        \<and> gst_rs_fec_dec_is_source_block_nr_newer nr (most_recent_block_nr d)")
    case False
    then have "nr = most_recent_block_nr d
        \<or> \<not> gst_rs_fec_dec_is_source_block_nr_newer nr (most_recent_block_nr d)" by blast
    from prune_same [OF pr nf this] show ?thesis by simp
  next
    case True
    then have n: "nr \<noteq> most_recent_block_nr d"
      "gst_rs_fec_dec_is_source_block_nr_newer nr (most_recent_block_nr d)" by simp_all
    from prune_newer [OF nf n] obtain d2 sbs where
      eq: "gst_rs_fec_dec_prune_source_block_table d nr = push_pruned_blocks d2 sbs GST_FLOW_OK"
      and k: "openfec d2 = openfec d"
      by blast
    from pr eq have pp: "push_pruned_blocks d2 sbs GST_FLOW_OK = Inr (ret, d')" by simp
    from push_pruned_blocks_openfec [OF pp] k show ?thesis by simp
  qed
qed

lemma target_block_ok:
  assumes ok: "table_ok d"
    and zero: "num_repair_packets (target_block d p s) = 0"
    and inc: "\<not> is_complete (target_block d p s)"
  shows "source_block_ok (num_source_symbols d) (target_block d p s)"
proof (cases "gst_rs_fec_dec_fetch_source_block d (fst (packet_ids p s))")
  case None
  then have "target_block d p s
      = fst (gst_rs_fec_dec_create_source_block d (fst (packet_ids p s)))"
    by (simp add: target_block_def)
  then show ?thesis by (simp add: fresh_block_ok)
next
  case (Some sb)
  then have t: "target_block d p s = sb" by (simp add: target_block_def)
  from Some have "(fst (packet_ids p s), sb) \<in> set (source_block_table d)"
    unfolding gst_rs_fec_dec_fetch_source_block_def by (rule map_of_SomeD)
  with ok zero inc t show ?thesis unfolding table_ok_def by force
qed

lemma insert_table_ok:
  assumes ins: "gst_rs_fec_dec_insert_fec_packet d p s = Inr (ret, d')" and ok: "table_ok d"
  shows "table_ok d' \<and> num_source_symbols d' = num_source_symbols d"
proof -
  let ?k = "num_source_symbols d"
  from ins have len: "6 \<le> length p"
    by (auto simp: gst_rs_fec_dec_insert_fec_packet_def split: if_splits)
  obtain nr esi where ids: "packet_ids p s = (nr, esi)" by (cases "packet_ids p s")
  define T where "T = target_block d p s"
  define d1 where "d1 = (case gst_rs_fec_dec_fetch_source_block d nr of
                     None \<Rightarrow> snd (gst_rs_fec_dec_create_source_block d nr) | Some sb \<Rightarrow> d)"
  define B where "B = with_source_packet T p"
  define R where "R = (SOURCE_BLOCK_SET_FLAG T esi)
                  \<lparr>repair_packets := p # repair_packets (SOURCE_BLOCK_SET_FLAG T esi),
                   num_repair_packets := num_repair_packets (SOURCE_BLOCK_SET_FLAG T esi) + 1\<rparr>"
  note ins' = ins [unfolded insert_cases [OF len ids T_def d1_def B_def R_def]]
  have ok1: "table_ok d1"
    using ok table_ok_create [OF ok, of nr] by (simp add: d1_def split: option.splits)
  have k1: "num_source_symbols d1 = ?k"
    by (simp add: d1_def gst_rs_fec_dec_create_source_block_def Let_def split: option.splits)
  let ?discard = "\<not> gst_rs_fec_dec_is_source_block_nr_recent_enough nr
              (most_recent_block_nr d) (max_source_block_age d)
          \<or> is_complete T \<or> SOURCE_BLOCK_IS_FLAG_SET T esi"
  show ?thesis
  proof (cases ?discard)
    case True
    with ins' have "d' = d1" by simp
    with ok1 k1 show ?thesis by simp
  next
    case keep: False
    show ?thesis
    proof (cases s)
      case rep: False
      from ins' keep rep have ipp: "insert_process_and_prune (store_source_block d1 R) R nr = Inr (ret, d')"
        by simp
      have "num_repair_packets R \<noteq> 0" by (simp add: R_def)
      then have "table_ok (store_source_block d1 R)"
        by (intro table_ok_store [OF ok1]) simp
      from insert_process_and_prune_table_ok [OF ipp this] k1 show ?thesis
        by (simp add: store_source_block_def)
    next
      case src: True
      with ids have e: "esi = source_esi p" by (simp add: packet_ids_def source_esi_def)
      from ins' keep src have inb: "esi < length (output_adu_table T)"
        by (auto split: if_splits)
      have okB: "source_block_ok (num_source_symbols d1) B"
        if g: "num_repair_packets B = 0 \<and> \<not> is_complete B"
      proof -
        from g have "num_repair_packets T = 0" "\<not> is_complete T"
          by (simp_all add: B_def with_source_packet_fields)
        then have okT: "source_block_ok ?k T"
          unfolding T_def by (intro target_block_ok [OF ok])
        then have "length (output_adu_table T) = ?k" by (simp add: source_block_ok_def)
        with inb e have "source_esi p < ?k" by simp
        moreover from keep e have "\<not> SOURCE_BLOCK_IS_FLAG_SET T (source_esi p)" by simp
        ultimately show ?thesis
          unfolding B_def k1 using okT len by (intro with_source_packet_ok)
      qed
      have ok2: "table_ok (store_source_block d1 B)"
        by (rule table_ok_store [OF ok1 okB])
      have k2: "num_source_symbols (store_source_block d1 B) = ?k"
        using k1 by (simp add: store_source_block_def)
      show ?thesis
      proof (cases "sort_output d")
        case True
        with ins' keep src inb
        have ipp: "insert_process_and_prune (store_source_block d1 B) B nr = Inr (ret, d')"
          by simp
        from insert_process_and_prune_table_ok [OF ipp ok2] k2 show ?thesis by simp
      next
        case nosort: False
        obtain r3 d3 where p: "gst_rs_fec_dec_push_adu (store_source_block d1 B)
                                 (take (length p - 6) p) = (r3, d3)"
          by (cases "gst_rs_fec_dec_push_adu (store_source_block d1 B) (take (length p - 6) p)")
        note sc = push_adu_same_core [OF p]
        have ok3: "table_ok d3" using sc ok2 by (rule table_ok_same_core)
        have k3: "num_source_symbols d3 = ?k" using same_core_fields(4) [OF sc] k2 by simp
        show ?thesis
        proof (cases "r3 = GST_FLOW_OK")
          case False
          with ins' keep src inb nosort p have "d' = d3" by simp
          with ok3 k3 show ?thesis by simp
        next
          case True
          with ins' keep src inb nosort p
          have ipp: "insert_process_and_prune d3 B nr = Inr (ret, d')" by simp
          from insert_process_and_prune_table_ok [OF ipp ok3] k3 show ?thesis by simp
        qed
      qed
    qed
  qed
qed

lemma dec_run_table_ok:
  "dec_run d packets = Inr d' \<Longrightarrow> table_ok d
     \<Longrightarrow> table_ok d' \<and> num_source_symbols d' = num_source_symbols d"
proof (induction packets arbitrary: d)
  case Nil
  then show ?case by simp
next
  case (Cons a packets)
  obtain p s where a: "a = (p, s)" by (cases a)
  from Cons.prems(1) a obtain ret d1 where
    ins: "gst_rs_fec_dec_insert_fec_packet d p s = Inr (ret, d1)"
    and run: "dec_run d1 packets = Inr d'"
    by (cases "gst_rs_fec_dec_insert_fec_packet d p s") auto
  from insert_table_ok [OF ins Cons.prems(2)]
  have ok1: "table_ok d1" and k1: "num_source_symbols d1 = num_source_symbols d" by simp_all
  from Cons.IH [OF run ok1] k1 show ?case by simp
qed

lemma process_complete_block:
  assumes ok: "source_block_ok (num_source_symbols d) sb"
    and can: "gst_rs_fec_dec_can_source_block_be_processed d sb"
    and zero: "num_repair_packets sb = 0"
  shows "gst_rs_fec_dec_process_source_block d sb = Inr (GST_FLOW_OK, d, sb\<lparr>is_complete := True\<rparr>)"
    and "\<forall>esi < num_source_symbols d.
           \<exists>p \<in> set (source_packets sb).
             source_esi p = esi \<and> output_adu_table sb ! esi = Some (take (length p - 6) p)"
proof -
  let ?k = "num_source_symbols d"
  let ?es = "map source_esi (source_packets sb)"
  from ok have dist: "distinct ?es" and below: "\<forall>e \<in> set ?es. e < ?k"
    and cnt: "num_source_packets sb = length (source_packets sb)"
    and slots: "\<forall>p \<in> set (source_packets sb).
                  output_adu_table sb ! source_esi p = Some (take (length p - 6) p)"
    by (auto simp: source_block_ok_def)
  from can zero cnt have "?k \<le> length ?es"
    by (simp add: gst_rs_fec_dec_can_source_block_be_processed_def)
  from distinct_below_all [OF dist below this]
  have len: "length ?es = ?k" and all: "set ?es = {..<?k}" by simp_all
  have n: "num_source_packets sb = ?k" using len cnt by simp
  show "gst_rs_fec_dec_process_source_block d sb = Inr (GST_FLOW_OK, d, sb\<lparr>is_complete := True\<rparr>)"
    using zero n by (simp add: gst_rs_fec_dec_process_source_block_def)
  have filled: "\<exists>p \<in> set (source_packets sb).
                   source_esi p = esi \<and> output_adu_table sb ! esi = Some (take (length p - 6) p)"
    if "esi < ?k" for esi
  proof -
    from that all have "esi \<in> set ?es" by simp
    then obtain p where "p \<in> set (source_packets sb)" "source_esi p = esi" by auto
    with slots show ?thesis by auto
  qed
  then show "\<forall>esi < num_source_symbols d.
           \<exists>p \<in> set (source_packets sb).
             source_esi p = esi \<and> output_adu_table sb ! esi = Some (take (length p - 6) p)"
    by blast
qed

text \<open>
  C6. Take any state reached from an empty block table by inserting packets, and a
  source packet that is added to a block without repair packets and brings the block's
  total to \<open>k\<close> (without sorting, let its ADU be accepted downstream). Then the insert
  operation hands the block, as it stands with the new packet, to the recoverability
  test and to processing. Processing returns \<open>GST_FLOW_OK\<close>, leaves the decoder state
  as it is and only marks the block complete. Each of the \<open>k\<close> output slots of the block
  already holds the ADU that insertion extracted from the source packet of that ESI.
  The whole insert operation makes no OpenFEC call.
\<close>

theorem C6_complete_without_collaborator:
  assumes start: "source_block_table d0 = []"
    and run: "dec_run d0 packets = Inr d"
    and ins: "gst_rs_fec_dec_insert_fec_packet d fec_packet True = Inr (ret, d')"
    and added: "packet_added d fec_packet True"
    and accepted: "\<not> immediate_push_refused d fec_packet True"
    and zero: "num_repair_packets (target_block d fec_packet True) = 0"
    and enough: "num_source_symbols d \<le> num_source_packets (target_block d fec_packet True) + 1"
  shows "\<exists>dP.
       gst_rs_fec_dec_insert_fec_packet d fec_packet True
         = insert_process_and_prune dP
             (with_source_packet (target_block d fec_packet True) fec_packet)
             (fst (packet_ids fec_packet True))
     \<and> openfec dP = openfec d
     \<and> gst_rs_fec_dec_can_source_block_be_processed dP
          (with_source_packet (target_block d fec_packet True) fec_packet)
     \<and> num_repair_packets (with_source_packet (target_block d fec_packet True) fec_packet) = 0
     \<and> num_source_packets (with_source_packet (target_block d fec_packet True) fec_packet)
          = num_source_symbols d
     \<and> gst_rs_fec_dec_process_source_block
          (dP\<lparr>processing_log := processing_log dP
                  @ [block_nr (with_source_packet (target_block d fec_packet True) fec_packet)]\<rparr>)
          (with_source_packet (target_block d fec_packet True) fec_packet)
         = Inr (GST_FLOW_OK,
                dP\<lparr>processing_log := processing_log dP
                  @ [block_nr (with_source_packet (target_block d fec_packet True) fec_packet)]\<rparr>,
                (with_source_packet (target_block d fec_packet True) fec_packet)
                  \<lparr>is_complete := True\<rparr>)
     \<and> length (output_adu_table
                  (with_source_packet (target_block d fec_packet True) fec_packet))
          = num_source_symbols d
     \<and> (\<forall>esi < num_source_symbols d.
           \<exists>p \<in> set (source_packets
                       (with_source_packet (target_block d fec_packet True) fec_packet)).
             source_esi p = esi
             \<and> output_adu_table
                  (with_source_packet (target_block d fec_packet True) fec_packet) ! esi
                = Some (take (length p - 6) p))
     \<and> openfec d' = openfec d
     \<and> processing_log d' =
          processing_log d
            @ [block_nr (with_source_packet (target_block d fec_packet True) fec_packet)]"
proof -
  let ?k = "num_source_symbols d"
  have ok: "table_ok d"
    using dec_run_table_ok [OF run table_ok_empty [OF start]] by simp
  from ins have len: "6 \<le> length fec_packet"
    by (auto simp: gst_rs_fec_dec_insert_fec_packet_def split: if_splits)
  obtain nr esi where ids: "packet_ids fec_packet True = (nr, esi)"
    by (cases "packet_ids fec_packet True")
  then have e: "esi = source_esi fec_packet" by (simp add: packet_ids_def source_esi_def)
  define T where "T = target_block d fec_packet True"
  define d1 where "d1 = (case gst_rs_fec_dec_fetch_source_block d nr of
                     None \<Rightarrow> snd (gst_rs_fec_dec_create_source_block d nr) | Some sb \<Rightarrow> d)"
  define B where "B = with_source_packet T fec_packet"
  define adu where "adu = take (length fec_packet - 6) fec_packet"
  note cases = insert_cases [OF len ids T_def d1_def B_def refl]
  from added ids have keep: "gst_rs_fec_dec_is_source_block_nr_recent_enough nr
              (most_recent_block_nr d) (max_source_block_age d)"
    "\<not> is_complete T" "\<not> SOURCE_BLOCK_IS_FLAG_SET T esi"
    by (simp_all add: packet_added_def T_def)
  from ins keep have inb: "esi < length (output_adu_table T)"
    unfolding cases by (auto split: if_splits)
  have d1f: "openfec d1 = openfec d" "num_source_symbols d1 = ?k"
    "processing_log d1 = processing_log d" "downstream d1 = downstream d"
    by (simp_all add: d1_def gst_rs_fec_dec_create_source_block_def Let_def split: option.splits)
  have okT: "source_block_ok ?k T"
    unfolding T_def using zero keep(2) by (intro target_block_ok [OF ok]) (simp_all add: T_def)
  then have lT: "length (output_adu_table T) = ?k" by (simp add: source_block_ok_def)
  have okB: "source_block_ok ?k B"
    unfolding B_def using okT len inb keep(3) lT e by (intro with_source_packet_ok) simp_all
  have zB: "num_repair_packets B = 0"
    using zero by (simp add: B_def with_source_packet_fields T_def)
  have nB: "?k \<le> num_source_packets B + num_repair_packets B"
    using enough zero by (simp add: B_def with_source_packet_fields T_def)
  define d2 where "d2 = store_source_block d1 B"
  have d2f: "openfec d2 = openfec d" "num_source_symbols d2 = ?k"
    "processing_log d2 = processing_log d" "downstream d2 = downstream d"
    "sort_output d2 = sort_output d"
    using d1f by (simp_all add: d2_def store_source_block_def d1_def
        gst_rs_fec_dec_create_source_block_def Let_def split: option.splits)
  have "\<exists>dP. gst_rs_fec_dec_insert_fec_packet d fec_packet True = insert_process_and_prune dP B nr
          \<and> openfec dP = openfec d \<and> num_source_symbols dP = ?k
          \<and> processing_log dP = processing_log d"
  proof (cases "sort_output d")
    case True
    with keep inb have "gst_rs_fec_dec_insert_fec_packet d fec_packet True
        = insert_process_and_prune d2 B nr"
      unfolding cases by (simp add: d2_def)
    with d2f show ?thesis by blast
  next
    case nosort: False
    obtain r3 d3 where p: "gst_rs_fec_dec_push_adu d2 adu = (r3, d3)"
      by (cases "gst_rs_fec_dec_push_adu d2 adu")
    have "fst (gst_rs_fec_dec_push_adu d adu) = r3"
      using p d2f(4) by (auto simp: gst_rs_fec_dec_push_adu_def gst_pad_push_def Let_def)
    with accepted nosort have r3: "r3 = GST_FLOW_OK"
      by (simp add: immediate_push_refused_def adu_def)
    with keep inb nosort p have "gst_rs_fec_dec_insert_fec_packet d fec_packet True
        = insert_process_and_prune d3 B nr"
      unfolding cases by (simp add: d2_def adu_def)
    moreover note sc = push_adu_same_core [OF p]
    have "openfec d3 = openfec d" using push_adu_openfec [OF p] d2f by simp
    moreover have "num_source_symbols d3 = ?k" "processing_log d3 = processing_log d"
      using same_core_fields(1,4) [OF sc] d2f by simp_all
    ultimately show ?thesis by blast
  qed
  then obtain dP where eq: "gst_rs_fec_dec_insert_fec_packet d fec_packet True
        = insert_process_and_prune dP B nr"
    and fP: "openfec dP = openfec d" "num_source_symbols dP = ?k"
      "processing_log dP = processing_log d"
    by blast
  let ?dl = "dP\<lparr>processing_log := processing_log dP @ [block_nr B]\<rparr>"
  have canP: "gst_rs_fec_dec_can_source_block_be_processed dP B"
    using nB fP by (simp add: gst_rs_fec_dec_can_source_block_be_processed_def)
  have okl: "source_block_ok (num_source_symbols ?dl) B" using okB fP by simp
  have canl: "gst_rs_fec_dec_can_source_block_be_processed ?dl B"
    using canP by (simp add: gst_rs_fec_dec_can_source_block_be_processed_def)
  note pc = process_complete_block [OF okl canl zB]
  have pr: "gst_rs_fec_dec_process_source_block ?dl B
              = Inr (GST_FLOW_OK, ?dl, B\<lparr>is_complete := True\<rparr>)"
    by (rule pc(1))
  have slots: "\<forall>esi < ?k. \<exists>p \<in> set (source_packets B).
             source_esi p = esi \<and> output_adu_table B ! esi = Some (take (length p - 6) p)"
    using pc(2) fP by simp
  have lB: "length (output_adu_table B) = ?k" using okB by (simp add: source_block_ok_def)
  have nsB: "num_source_packets B = ?k"
  proof -
    from pr zB have "num_source_packets B = num_source_symbols ?dl"
      by (auto simp: gst_rs_fec_dec_process_source_block_def split: if_splits)
    with fP show ?thesis by simp
  qed
  from ins eq have ipp: "insert_process_and_prune dP B nr = Inr (ret, d')" by simp
  from insert_process_and_prune_log [OF ipp] canP fP
  have log: "processing_log d' = processing_log d @ [block_nr B]" by simp
  from insert_process_and_prune_cases [OF ipp] canP pr obtain d2' where
    "gst_rs_fec_dec_prune_source_block_table d2' nr = Inr (ret, d')"
    "d2' = (if \<not> sort_output ?dl
            then ?dl\<lparr>source_block_table := AList.delete nr (source_block_table ?dl)\<rparr>
            else store_source_block ?dl (B\<lparr>is_complete := True\<rparr>))"
    by auto
  then have of': "openfec d' = openfec d"
    using prune_openfec [of d2' nr ret d'] fP by (simp add: store_source_block_def)
  have nr: "nr = fst (packet_ids fec_packet True)" using ids by simp
  from eq fP(1) canP zB nsB pr lB slots of' log show ?thesis
    unfolding B_def T_def nr by blast
qed

lemma after_packets_run:
  assumes "case dec_run d ps of Inr _ \<Rightarrow> True | Inl _ \<Rightarrow> False"
  shows "dec_run d ps = Inr (after_packets d ps)"
  using assms unfolding after_packets_def by (auto split: sum.splits)

theorem C6_complete_without_collaborator_witness:
  "source_block_table default_decoder = []
   \<and> dec_run default_decoder
        [(packet_block5_esi0, True), (packet_block5_esi1, True), (packet_block5_esi2, True)]
      = Inr (after_packets default_decoder
        [(packet_block5_esi0, True), (packet_block5_esi1, True), (packet_block5_esi2, True)])
   \<and> (\<exists>ret. gst_rs_fec_dec_insert_fec_packet
            (after_packets default_decoder
               [(packet_block5_esi0, True), (packet_block5_esi1, True), (packet_block5_esi2, True)])
            packet_block5_esi3 True
          = Inr (ret, after_packets default_decoder
               [(packet_block5_esi0, True), (packet_block5_esi1, True), (packet_block5_esi2, True),
                (packet_block5_esi3, True)]))
   \<and> packet_added (after_packets default_decoder
        [(packet_block5_esi0, True), (packet_block5_esi1, True), (packet_block5_esi2, True)])
        packet_block5_esi3 True
   \<and> \<not> immediate_push_refused (after_packets default_decoder
        [(packet_block5_esi0, True), (packet_block5_esi1, True), (packet_block5_esi2, True)])
        packet_block5_esi3 True
   \<and> with_source_packet
        (target_block (after_packets default_decoder
           [(packet_block5_esi0, True), (packet_block5_esi1, True), (packet_block5_esi2, True)])
           packet_block5_esi3 True) packet_block5_esi3
      = block5_all_sources
   \<and> map source_esi (source_packets block5_all_sources) = [3, 2, 1, 0]
   \<and> output_adu_table block5_all_sources = [Some [0x11], Some [0x12], Some [0x13], Some [0x14]]
   \<and> of_calls (openfec (after_packets default_decoder
        [(packet_block5_esi0, True), (packet_block5_esi1, True), (packet_block5_esi2, True),
         (packet_block5_esi3, True)])) = []
   \<and> processing_log (after_packets default_decoder
        [(packet_block5_esi0, True), (packet_block5_esi1, True), (packet_block5_esi2, True),
         (packet_block5_esi3, True)]) = [5]
   \<and> gst_rs_fec_dec_fetch_source_block
        (after_packets default_decoder
           [(packet_block5_esi0, True), (packet_block5_esi1, True), (packet_block5_esi2, True),
            (packet_block5_esi3, True)]) 5
       = Some (block5_all_sources\<lparr>is_complete := True\<rparr>)"
proof -
  let ?ps = "[(packet_block5_esi0, True), (packet_block5_esi1, True), (packet_block5_esi2, True)]"
  let ?d3 = "after_packets default_decoder ?ps"
  let ?d4 = "after_packets default_decoder (?ps @ [(packet_block5_esi3, True)])"
  let ?B = "with_source_packet (target_block ?d3 packet_block5_esi3 True) packet_block5_esi3"
  have start: "source_block_table default_decoder = []"
    by (simp add: default_decoder_def gst_rs_fec_dec_init_def)
  have "case dec_run default_decoder ?ps of Inr _ \<Rightarrow> True | Inl _ \<Rightarrow> False" by code_simp
  from after_packets_run [OF this] have run: "dec_run default_decoder ?ps = Inr ?d3" .
  have "case dec_run default_decoder (?ps @ [(packet_block5_esi3, True)]) of
          Inr _ \<Rightarrow> True | Inl _ \<Rightarrow> False"
    by code_simp
  from after_packets_step [OF this] obtain ret where
    ins: "gst_rs_fec_dec_insert_fec_packet ?d3 packet_block5_esi3 True = Inr (ret, ?d4)"
    by blast
  have added: "packet_added ?d3 packet_block5_esi3 True" by code_simp
  have accepted: "\<not> immediate_push_refused ?d3 packet_block5_esi3 True" by code_simp
  have zero: "num_repair_packets (target_block ?d3 packet_block5_esi3 True) = 0" by code_simp
  have enough: "num_source_symbols ?d3
                  \<le> num_source_packets (target_block ?d3 packet_block5_esi3 True) + 1"
    by code_simp
  have B: "?B = block5_all_sources" by code_simp
  have k: "num_source_symbols ?d3 = 4" by code_simp
  have l3: "processing_log ?d3 = []" by code_simp
  have o3: "of_calls (openfec ?d3) = []" by code_simp
  have nr: "block_nr block5_all_sources = 5" by (simp add: block5_all_sources_def)
  have esis: "map source_esi (source_packets block5_all_sources) = [3, 2, 1, 0]" by code_simp
  have slots: "output_adu_table block5_all_sources
                 = [Some [0x11], Some [0x12], Some [0x13], Some [0x14]]"
    by (simp add: block5_all_sources_def)
  have stored: "gst_rs_fec_dec_fetch_source_block
        (after_packets default_decoder
           [(packet_block5_esi0, True), (packet_block5_esi1, True), (packet_block5_esi2, True),
            (packet_block5_esi3, True)]) 5
                  = Some (block5_all_sources\<lparr>is_complete := True\<rparr>)"
    by code_simp
  from C6_complete_without_collaborator [OF start run ins added accepted zero enough]
  have o4: "openfec ?d4 = openfec ?d3"
    and l4: "processing_log ?d4 = processing_log ?d3 @ [5]"
    unfolding B k nr by blast+
  from ins have ins': "\<exists>ret. gst_rs_fec_dec_insert_fec_packet ?d3 packet_block5_esi3 True
          = Inr (ret, after_packets default_decoder
               [(packet_block5_esi0, True), (packet_block5_esi1, True), (packet_block5_esi2, True),
                (packet_block5_esi3, True)])"
    by (simp only: append.simps) blast
  have o4': "of_calls (openfec (after_packets default_decoder
        [(packet_block5_esi0, True), (packet_block5_esi1, True), (packet_block5_esi2, True),
         (packet_block5_esi3, True)])) = []"
    using o4 o3 by simp
  have l4': "processing_log (after_packets default_decoder
        [(packet_block5_esi0, True), (packet_block5_esi1, True), (packet_block5_esi2, True),
         (packet_block5_esi3, True)]) = [5]"
    using l4 l3 by simp
  from start run ins' added accepted B esis slots o4' l4' stored show ?thesis
    by (intro conjI) assumption+
qed

section \<open>Encoder: block numbers of the pushed packets\<close>

lemma map_filter_append:
  "List.map_filter f (xs @ ys) = List.map_filter f xs @ List.map_filter f ys"
  by (simp add: List.map_filter_def)

lemma length_fec_payload_id: "length (fec_payload_id nr esi k) = 6"
  by (simp add: fec_payload_id_def)

lemma source_packet_read_back:
  "fst (gst_rs_fec_dec_source_packet_read_payload_id (adu @ fec_payload_id nr esi k)) = nr AND 0xFFFFFF"
  using read_back_block_nr [of nr esi k "[]"]
  by (simp add: gst_rs_fec_dec_source_packet_read_payload_id_def length_fec_payload_id)

lemma repair_packet_read_back:
  "fst (gst_rs_fec_dec_repair_packet_read_payload_id (fec_payload_id nr esi k @ symbol)) = nr AND 0xFFFFFF"
  by (simp add: gst_rs_fec_dec_repair_packet_read_payload_id_def read_back_block_nr)

lemma non_decreasing24_snoc:
  "non_decreasing24 (xs @ [x]) \<longleftrightarrow>
     non_decreasing24 xs \<and> (xs = [] \<or> x = last xs \<or> x = succ24 (last xs))"
  by (induction xs rule: non_decreasing24.induct) auto

lemma succ24_mask: "succ24 (nr AND 0xFFFFFF) = (nr + 1) AND 0xFFFFFF"
  unfolding succ24_def masks(4) by (rule mask_eqs(1))

lemma stamps_push:
  "List.map_filter stamped_block_nr (pushed (snd (gst_pad_push ds pad buffer)))
     = List.map_filter stamped_block_nr (pushed ds)
         @ (case stamped_block_nr (pad, PadBuffer buffer) of None \<Rightarrow> [] | Some nr \<Rightarrow> [nr])"
  by (simp add: gst_pad_push_def Let_def map_filter_append List.map_filter_def split: option.splits)

lemma stamps_push_event:
  "List.map_filter stamped_block_nr (pushed (gst_pad_push_event ds pad ev))
     = List.map_filter stamped_block_nr (pushed ds)"
  by (cases pad) (simp_all add: gst_pad_push_event_def map_filter_append List.map_filter_def)

lemma buffers_push:
  "length (filter (is_buffer_on p) (pushed (snd (gst_pad_push ds pad buffer))))
     = length (filter (is_buffer_on p) (pushed ds)) + (if pad = p then 1 else 0)"
  by (simp add: gst_pad_push_def Let_def)

lemma buffers_push_event:
  "filter (is_buffer_on p) (pushed (gst_pad_push_event ds pad ev)) = filter (is_buffer_on p) (pushed ds)"
  by (simp add: gst_pad_push_event_def)


lemma stamps_behind_frame:
  assumes "stamps_behind_counter e"
    and "stamps e' = stamps e" and "cur_source_block_nr e' = cur_source_block_nr e"
  shows "stamps_behind_counter e'"
  using assms by (simp add: stamps_behind_counter_def)

lemma flush_all_adus_frame:
  "enc_downstream (gst_rs_fec_enc_flush_all_adus e) = enc_downstream e"
  "cur_source_block_nr (gst_rs_fec_enc_flush_all_adus e) = cur_source_block_nr e"
  by (simp_all add: gst_rs_fec_enc_flush_all_adus_def)

lemma flush_all_fec_repair_packets_frame:
  "enc_downstream (gst_rs_fec_enc_flush_all_fec_repair_packets e) = enc_downstream e"
  "cur_source_block_nr (gst_rs_fec_enc_flush_all_fec_repair_packets e) = cur_source_block_nr e"
  by (simp_all add: gst_rs_fec_enc_flush_all_fec_repair_packets_def)

lemma reset_states_frame:
  "enc_downstream (gst_rs_fec_enc_reset_states e) = enc_downstream e"
  "cur_source_block_nr (gst_rs_fec_enc_reset_states e) = cur_source_block_nr e"
  by (simp_all add: gst_rs_fec_enc_reset_states_def)

lemma flush_frame:
  "enc_downstream (gst_rs_fec_enc_flush e) = enc_downstream e"
  "cur_source_block_nr (gst_rs_fec_enc_flush e) = cur_source_block_nr e"
  by (simp_all add: gst_rs_fec_enc_flush_def reset_states_frame
      flush_all_fec_repair_packets_frame flush_all_adus_frame)

lemma cleanup_enc_frame:
  "enc_downstream (process_source_block_cleanup_enc e) = enc_downstream e"
  "cur_source_block_nr (process_source_block_cleanup_enc e) = cur_source_block_nr e"
  by (simp_all add: process_source_block_cleanup_enc_def
      flush_all_fec_repair_packets_frame flush_all_adus_frame)

lemma stamps_cong: "enc_downstream e' = enc_downstream e \<Longrightarrow> stamps e' = stamps e"
  by (simp add: stamps_def)

lemma buffers_on_cong: "enc_downstream e' = enc_downstream e \<Longrightarrow> buffers_on p e' = buffers_on p e"
  by (simp add: buffers_on_def)

lemma prepare_source_symbols_frame:
  assumes "prepare_source_symbols e len = Inr (go_on, ret, e')"
  shows "enc_downstream e' = enc_downstream e"
    and "cur_source_block_nr e' = cur_source_block_nr e"
    and "enc_num_repair_symbols e' = enc_num_repair_symbols e"
    and "enc_num_source_symbols e' = enc_num_source_symbols e"
  using assms
  by (auto simp: prepare_source_symbols_def gst_rs_fec_enc_configure_fec_def of_invoke_def
      ENC_CHECK_IF_FATAL_ERROR_def Let_def split: if_splits sum.splits prod.splits)

lemma push_start_events_frame:
  "stamps (push_start_events e) = stamps e"
  "buffers_on p (push_start_events e) = buffers_on p e"
  "cur_source_block_nr (push_start_events e) = cur_source_block_nr e"
  "enc_num_repair_symbols (push_start_events e) = enc_num_repair_symbols e"
  "enc_num_source_symbols (push_start_events e) = enc_num_source_symbols e"
  by (simp_all add: push_start_events_def stamps_def buffers_on_def Let_def
      stamps_push_event buffers_push_event)

lemma push_repair_packets_effect:
  assumes "push_repair_packets e nr len is = Inr (finished, ret, e')"
  shows "cur_source_block_nr e' = cur_source_block_nr e
       \<and> (\<exists>n. stamps e' = stamps e @ replicate n (nr AND 0xFFFFFF))
       \<and> buffers_on FECSOURCE e' = buffers_on FECSOURCE e
       \<and> (finished \<longrightarrow> ret = GST_FLOW_OK
             \<and> buffers_on FECREPAIR e' = buffers_on FECREPAIR e + length is)"
  using assms
proof (induction "is" arbitrary: e)
  case Nil
  then show ?case by (auto intro: exI [of _ 0])
next
  case (Cons i "is")
  let ?esi = "i + enc_num_source_symbols e"
  obtain status lib where inv: "of_invoke (enc_openfec e)
             (OF_build_repair_symbol (encoding_symbol_table e) ?esi) = (status, lib)"
    by (cases "of_invoke (enc_openfec e) (OF_build_repair_symbol (encoding_symbol_table e) ?esi)")
  define e1 where "e1 = e\<lparr>enc_openfec := lib\<rparr>"
  show ?case
  proof (cases "status \<noteq> OF_STATUS_OK")
    case True
    with Cons.prems inv have "e' = ENC_CHECK_IF_FATAL_ERROR e1 status" "\<not> finished"
      by (simp_all add: Let_def e1_def)
    then show ?thesis
      by (auto simp: ENC_CHECK_IF_FATAL_ERROR_def e1_def stamps_def buffers_on_def
          intro: exI [of _ 0])
  next
    case False
    then have ok: "status = OF_STATUS_OK" by simp
    define pkt where "pkt = fec_payload_id nr ?esi (enc_num_source_symbols e)
                    @ repair_symbol_bytes len (of_repair_symbol lib (of_calls lib))"
    from Cons.prems inv ok have pos: "cur_num_fec_repair_packets e > 0"
      by (auto simp: Let_def e1_def split: if_splits)
    define e2 where "e2 = e1\<lparr>cur_num_fec_repair_packets := cur_num_fec_repair_packets e1 - 1,
                               first_repair_packet := False\<rparr>"
    obtain r ds where p: "gst_pad_push (enc_downstream e2) FECREPAIR pkt = (r, ds)"
      by (cases "gst_pad_push (enc_downstream e2) FECREPAIR pkt")
    define e3 where "e3 = e2\<lparr>enc_downstream := ds\<rparr>"
    have ds: "ds = snd (gst_pad_push (enc_downstream e) FECREPAIR pkt)"
      using p by (simp add: e2_def e1_def)
    have st3: "stamps e3 = stamps e @ [nr AND 0xFFFFFF]"
      by (simp add: e3_def stamps_def ds stamps_push pkt_def repair_packet_read_back)
    have b3: "buffers_on FECSOURCE e3 = buffers_on FECSOURCE e"
      "buffers_on FECREPAIR e3 = buffers_on FECREPAIR e + 1"
      by (simp_all add: e3_def buffers_on_def ds buffers_push)
    have c3: "cur_source_block_nr e3 = cur_source_block_nr e"
      by (simp add: e3_def e2_def e1_def)
    from Cons.prems inv ok pos p
    have rest: "(if r \<noteq> GST_FLOW_OK then Inr (False, r, e3)
                 else push_repair_packets e3 nr len is) = Inr (finished, ret, e')"
      by (auto simp: Let_def e1_def e2_def e3_def pkt_def split: if_splits)
    show ?thesis
    proof (cases "r \<noteq> GST_FLOW_OK")
      case True
      with rest have "e' = e3" "\<not> finished" by simp_all
      with st3 b3 c3 show ?thesis by (auto intro: exI [of _ 1])
    next
      case False
      with rest have "push_repair_packets e3 nr len is = Inr (finished, ret, e')" by simp
      from Cons.IH [OF this] obtain n where
        ih: "cur_source_block_nr e' = cur_source_block_nr e3"
          "stamps e' = stamps e3 @ replicate n (nr AND 0xFFFFFF)"
          "buffers_on FECSOURCE e' = buffers_on FECSOURCE e3"
          "finished \<longrightarrow> ret = GST_FLOW_OK
             \<and> buffers_on FECREPAIR e' = buffers_on FECREPAIR e3 + length is"
        by blast
      have "stamps e' = stamps e @ replicate (Suc n) (nr AND 0xFFFFFF)"
        using ih(2) st3 by simp
      then have ex: "\<exists>m. stamps e' = stamps e @ replicate m (nr AND 0xFFFFFF)" by blast
      from ih(1,3,4) b3 c3 ex show ?thesis by simp
    qed
  qed
qed


lemma non_decreasing24_replicate:
  assumes "non_decreasing24 xs"
    and "xs \<noteq> [] \<longrightarrow> last xs = x \<or> succ24 (last xs) = x"
  shows "non_decreasing24 (xs @ replicate n x) \<and> (n > 0 \<longrightarrow> last (xs @ replicate n x) = x)"
proof (induction n)
  case 0
  with assms show ?case by simp
next
  case (Suc n)
  have eq: "xs @ replicate (Suc n) x = (xs @ replicate n x) @ [x]"
    by (simp add: replicate_append_same)
  have "xs @ replicate n x = [] \<or> x = last (xs @ replicate n x) \<or> x = succ24 (last (xs @ replicate n x))"
  proof (cases "n = 0")
    case True
    with assms(2) show ?thesis by auto
  next
    case False
    with Suc show ?thesis by simp
  qed
  with Suc show ?case unfolding eq non_decreasing24_snoc by simp
qed

lemma stamps_behind_append:
  assumes inv: "stamps_behind_counter e"
    and st: "stamps e' = stamps e @ replicate n (cur_source_block_nr e AND 0xFFFFFF)"
    and cur: "cur_source_block_nr e' = cur_source_block_nr e
              \<or> (cur_source_block_nr e' = cur_source_block_nr e + 1 \<and> n > 0)"
  shows "stamps_behind_counter e'"
proof -
  let ?x = "cur_source_block_nr e AND 0xFFFFFF"
  from inv have nd: "non_decreasing24 (stamps e)"
    and l: "stamps e \<noteq> [] \<longrightarrow> last (stamps e) = ?x \<or> succ24 (last (stamps e)) = ?x"
    by (simp_all add: stamps_behind_counter_def)
  from non_decreasing24_replicate [OF nd l, of n]
  have nd': "non_decreasing24 (stamps e')" and l': "n > 0 \<longrightarrow> last (stamps e') = ?x"
    unfolding st by simp_all
  show ?thesis
  proof (cases "n > 0")
    case True
    with l' have "last (stamps e') = ?x" by simp
    with nd' cur succ24_mask [of "cur_source_block_nr e"] show ?thesis
      by (auto simp: stamps_behind_counter_def)
  next
    case False
    with st cur have "stamps e' = stamps e" "cur_source_block_nr e' = cur_source_block_nr e"
      by simp_all
    with inv show ?thesis by (rule stamps_behind_frame)
  qed
qed


lemma process_source_block_enc_unfold:
  assumes "\<not> cur_num_adus e < enc_num_source_symbols e"
  shows "gst_rs_fec_enc_process_source_block e =
     (case prepare_source_symbols e (1 + 2 + cur_max_adu_length e) of
        Inl f \<Rightarrow> Inl f
      | Inr (go_on, ret, e1) \<Rightarrow>
          if \<not> go_on then Inr (ret, process_source_block_cleanup_enc e1)
          else
            (case push_repair_packets
                    ((push_start_events e1)
                       \<lparr>cur_num_fec_repair_packets := enc_num_repair_symbols (push_start_events e1)\<rparr>)
                    (cur_source_block_nr e) (1 + 2 + cur_max_adu_length e)
                    [0 ..< enc_num_repair_symbols (push_start_events e1)] of
               Inl f \<Rightarrow> Inl f
             | Inr (finished, ret', e4) \<Rightarrow>
                 if \<not> finished then Inr (ret', process_source_block_cleanup_enc e4)
                 else Inr (ret', process_source_block_cleanup_enc
                             (e4\<lparr>cur_source_block_nr := cur_source_block_nr e4 + 1\<rparr>))))"
  using assms
  by (simp add: gst_rs_fec_enc_process_source_block_def Let_def
      split: sum.splits prod.splits)


lemma process_source_block_enc_effect:
  assumes pr: "gst_rs_fec_enc_process_source_block e = Inr (ret, e')"
  shows "(\<exists>n. stamps e' = stamps e @ replicate n (cur_source_block_nr e AND 0xFFFFFF))
       \<and> buffers_on FECSOURCE e' = buffers_on FECSOURCE e
       \<and> (cur_source_block_nr e' = cur_source_block_nr e
            \<or> (cur_source_block_nr e' = cur_source_block_nr e + 1 \<and> ret = GST_FLOW_OK
                \<and> buffers_on FECREPAIR e' = buffers_on FECREPAIR e + enc_num_repair_symbols e
                \<and> enc_num_source_symbols e \<le> cur_num_adus e))"
proof (cases "cur_num_adus e < enc_num_source_symbols e")
  case True
  with pr have "e' = e" by (simp add: gst_rs_fec_enc_process_source_block_def)
  then show ?thesis by (auto intro: exI [of _ 0])
next
  case False
  note pr' = pr [unfolded process_source_block_enc_unfold [OF False]]
  let ?len = "1 + 2 + cur_max_adu_length e"
  from pr' obtain go_on r1 e1 where
    prep: "prepare_source_symbols e ?len = Inr (go_on, r1, e1)"
    by (cases "prepare_source_symbols e ?len") auto
  note f1 = prepare_source_symbols_frame [OF prep]
  show ?thesis
  proof (cases go_on)
    case nogo: False
    from pr' have "e' = process_source_block_cleanup_enc e1"
      unfolding prep using nogo by simp
    then have ds: "enc_downstream e' = enc_downstream e"
      and "cur_source_block_nr e' = cur_source_block_nr e"
      using f1 by (simp_all add: cleanup_enc_frame)
    moreover have "stamps e' = stamps e @ replicate 0 (cur_source_block_nr e AND 0xFFFFFF)"
      using stamps_cong [OF ds] by simp
    moreover note buffers_on_cong [OF ds, of FECSOURCE]
    ultimately show ?thesis by blast
  next
    case True
    define e3 where "e3 = (push_start_events e1)
        \<lparr>cur_num_fec_repair_packets := enc_num_repair_symbols (push_start_events e1)\<rparr>"
    have ds3: "enc_downstream e3 = enc_downstream (push_start_events e1)" by (simp add: e3_def)
    have f3: "stamps e3 = stamps e" "buffers_on FECSOURCE e3 = buffers_on FECSOURCE e"
      "buffers_on FECREPAIR e3 = buffers_on FECREPAIR e"
      "cur_source_block_nr e3 = cur_source_block_nr e"
      "enc_num_repair_symbols (push_start_events e1) = enc_num_repair_symbols e"
    proof -
      show "stamps e3 = stamps e"
        using stamps_cong [OF ds3] stamps_cong [OF f1(1)] by (simp add: push_start_events_frame)
      show "buffers_on FECSOURCE e3 = buffers_on FECSOURCE e"
        using buffers_on_cong [OF ds3, of FECSOURCE] buffers_on_cong [OF f1(1), of FECSOURCE]
        by (simp add: push_start_events_frame)
      show "buffers_on FECREPAIR e3 = buffers_on FECREPAIR e"
        using buffers_on_cong [OF ds3, of FECREPAIR] buffers_on_cong [OF f1(1), of FECREPAIR]
        by (simp add: push_start_events_frame)
      show "cur_source_block_nr e3 = cur_source_block_nr e"
        using f1(2) by (simp add: e3_def push_start_events_frame)
      show "enc_num_repair_symbols (push_start_events e1) = enc_num_repair_symbols e"
        using f1(3) by (simp add: push_start_events_frame)
    qed
    let ?is = "[0 ..< enc_num_repair_symbols (push_start_events e1)]"
    from pr' have pr'': "(case push_repair_packets e3 (cur_source_block_nr e) ?len ?is of
               Inl f \<Rightarrow> Inl f
             | Inr (finished, ret', e4) \<Rightarrow>
                 if \<not> finished then Inr (ret', process_source_block_cleanup_enc e4)
                 else Inr (ret', process_source_block_cleanup_enc
                             (e4\<lparr>cur_source_block_nr := cur_source_block_nr e4 + 1\<rparr>)))
          = Inr (ret, e')"
      unfolding prep e3_def using True by simp
    then obtain finished r4 e4 where
      rp: "push_repair_packets e3 (cur_source_block_nr e) ?len ?is = Inr (finished, r4, e4)"
      by (cases "push_repair_packets e3 (cur_source_block_nr e) ?len ?is") auto
    from push_repair_packets_effect [OF rp] obtain n where
      f4: "cur_source_block_nr e4 = cur_source_block_nr e"
        "stamps e4 = stamps e @ replicate n (cur_source_block_nr e AND 0xFFFFFF)"
        "buffers_on FECSOURCE e4 = buffers_on FECSOURCE e"
        "finished \<longrightarrow> r4 = GST_FLOW_OK
           \<and> buffers_on FECREPAIR e4 = buffers_on FECREPAIR e + enc_num_repair_symbols e"
      using f3 by auto
    from pr'' have res:
      "(if \<not> finished then Inr (r4, process_source_block_cleanup_enc e4)
        else Inr (r4, process_source_block_cleanup_enc
                        (e4\<lparr>cur_source_block_nr := cur_source_block_nr e4 + 1\<rparr>)))
       = Inr (ret, e')"
      unfolding rp by (auto split: if_splits)
    show ?thesis
    proof (cases finished)
      case nofin: False
      with res have "e' = process_source_block_cleanup_enc e4" by simp
      then have ds: "enc_downstream e' = enc_downstream e4"
        and c: "cur_source_block_nr e' = cur_source_block_nr e"
        using f4 by (simp_all add: cleanup_enc_frame)
      have "stamps e' = stamps e @ replicate n (cur_source_block_nr e AND 0xFFFFFF)"
        "buffers_on FECSOURCE e' = buffers_on FECSOURCE e"
        using stamps_cong [OF ds] buffers_on_cong [OF ds, of FECSOURCE] f4 by simp_all
      with c show ?thesis by blast
    next
      case fin: True
      with res have e': "e' = process_source_block_cleanup_enc
                        (e4\<lparr>cur_source_block_nr := cur_source_block_nr e4 + 1\<rparr>)"
        and ret: "ret = r4" by simp_all
      have ds: "enc_downstream e' = enc_downstream e4"
        and c: "cur_source_block_nr e' = cur_source_block_nr e + 1"
        using f4 by (simp_all add: e' cleanup_enc_frame)
      have "stamps e' = stamps e @ replicate n (cur_source_block_nr e AND 0xFFFFFF)"
        "buffers_on FECSOURCE e' = buffers_on FECSOURCE e"
        "buffers_on FECREPAIR e' = buffers_on FECREPAIR e + enc_num_repair_symbols e"
        "ret = GST_FLOW_OK"
        using stamps_cong [OF ds] buffers_on_cong [OF ds, of FECSOURCE]
          buffers_on_cong [OF ds, of FECREPAIR] f4 fin ret by simp_all
      moreover have "enc_num_source_symbols e \<le> cur_num_adus e" using False by simp
      ultimately show ?thesis using c by blast
    qed
  qed
qed

section \<open>Encoder: the block counter over whole runs\<close>

lemma push_adu_enc_effect:
  assumes "gst_rs_fec_enc_push_adu e adu esi = (ret, e')"
  shows "stamps e' = stamps e @ [cur_source_block_nr e AND 0xFFFFFF]"
    and "buffers_on FECSOURCE e' = buffers_on FECSOURCE e + 1"
    and "buffers_on FECREPAIR e' = buffers_on FECREPAIR e"
    and "cur_source_block_nr e' = cur_source_block_nr e"
    and "enc_num_repair_symbols e' = enc_num_repair_symbols e"
    and "enc_num_source_symbols e' = enc_num_source_symbols e"
    and "cur_num_adus e' = cur_num_adus e"
proof -
  let ?pkt = "adu @ fec_payload_id (cur_source_block_nr e) esi (enc_num_source_symbols e)"
  from assms have e': "e' = e\<lparr>first_source_packet := False,
      enc_downstream := snd (gst_pad_push (enc_downstream e) FECSOURCE ?pkt)\<rparr>"
    by (auto simp: gst_rs_fec_enc_push_adu_def Let_def split: prod.splits)
  show "stamps e' = stamps e @ [cur_source_block_nr e AND 0xFFFFFF]"
    by (simp add: e' stamps_def stamps_push source_packet_read_back)
  show "buffers_on FECSOURCE e' = buffers_on FECSOURCE e + 1"
    "buffers_on FECREPAIR e' = buffers_on FECREPAIR e"
    by (simp_all add: e' buffers_on_def buffers_push)
  show "cur_source_block_nr e' = cur_source_block_nr e"
    "enc_num_repair_symbols e' = enc_num_repair_symbols e"
    "enc_num_source_symbols e' = enc_num_source_symbols e"
    "cur_num_adus e' = cur_num_adus e"
    by (simp_all add: e')
qed

lemma sink_chain_effect:
  assumes sc: "gst_rs_fec_enc_sink_chain e buffer = Inr (ret, e')"
  shows "\<exists>n. stamps e' = stamps e @ replicate n (cur_source_block_nr e AND 0xFFFFFF)
           \<and> (cur_source_block_nr e' = cur_source_block_nr e
               \<or> (cur_source_block_nr e' = cur_source_block_nr e + 1 \<and> n > 0
                   \<and> ret = GST_FLOW_OK
                   \<and> buffers_on FECREPAIR e' = buffers_on FECREPAIR e + enc_num_repair_symbols e
                   \<and> buffers_on FECSOURCE e' = buffers_on FECSOURCE e + 1
                   \<and> enc_num_source_symbols e \<le> cur_num_adus e + 1))"
proof -
  let ?x = "cur_source_block_nr e AND 0xFFFFFF"
  consider (eos) "eos_received e" | (big) "\<not> eos_received e" "length buffer > 65535"
    | (go) "\<not> eos_received e" "\<not> length buffer > 65535" by blast
  then show ?thesis
  proof cases
    case eos
    with sc have "e' = e" by (simp add: gst_rs_fec_enc_sink_chain_def)
    then have "stamps e' = stamps e @ replicate 0 ?x" "cur_source_block_nr e' = cur_source_block_nr e"
      by simp_all
    then show ?thesis by blast
  next
    case big
    with sc have "e' = e\<lparr>enc_messages := enc_messages e @ [ELEMENT_ERROR ''input buffer too large'']\<rparr>"
      by (simp add: gst_rs_fec_enc_sink_chain_def)
    then have "stamps e' = stamps e @ replicate 0 ?x" "cur_source_block_nr e' = cur_source_block_nr e"
      by (simp_all add: stamps_def)
    then show ?thesis by blast
  next
    case go
    obtain r1 e1 where p: "gst_rs_fec_enc_push_adu e buffer (cur_num_adus e) = (r1, e1)"
      by (cases "gst_rs_fec_enc_push_adu e buffer (cur_num_adus e)")
    note f1 = push_adu_enc_effect [OF p]
    from sc go p have rest:
      "(if r1 \<noteq> GST_FLOW_OK then Inr (r1, e1)
        else case gst_rs_fec_enc_insert_adu e1 buffer (cur_num_adus e) of
               Inl f \<Rightarrow> Inl f
             | Inr e2 \<Rightarrow> gst_rs_fec_enc_process_source_block (e2\<lparr>cur_num_adus := cur_num_adus e2 + 1\<rparr>))
       = Inr (ret, e')"
      by (simp add: gst_rs_fec_enc_sink_chain_def Let_def)
    show ?thesis
    proof (cases "r1 \<noteq> GST_FLOW_OK")
      case True
      with rest have "e' = e1" by simp
      with f1 have "stamps e' = stamps e @ replicate 1 ?x"
        "cur_source_block_nr e' = cur_source_block_nr e" by simp_all
      then show ?thesis by blast
    next
      case False
      with rest obtain e2 where ia: "gst_rs_fec_enc_insert_adu e1 buffer (cur_num_adus e) = Inr e2"
        and pr: "gst_rs_fec_enc_process_source_block (e2\<lparr>cur_num_adus := cur_num_adus e2 + 1\<rparr>)
                   = Inr (ret, e')"
        by (cases "gst_rs_fec_enc_insert_adu e1 buffer (cur_num_adus e)") auto
      define e3 where "e3 = e2\<lparr>cur_num_adus := cur_num_adus e2 + 1\<rparr>"
      from ia have e2: "enc_downstream e2 = enc_downstream e1"
        "cur_source_block_nr e2 = cur_source_block_nr e1"
        "enc_num_repair_symbols e2 = enc_num_repair_symbols e1"
        "enc_num_source_symbols e2 = enc_num_source_symbols e1"
        "cur_num_adus e2 = cur_num_adus e1"
        by (auto simp: gst_rs_fec_enc_insert_adu_def split: if_splits)
      have ds3: "enc_downstream e3 = enc_downstream e1" using e2 by (simp add: e3_def)
      have f3: "stamps e3 = stamps e @ [?x]"
        "buffers_on FECSOURCE e3 = buffers_on FECSOURCE e + 1"
        "buffers_on FECREPAIR e3 = buffers_on FECREPAIR e"
        using stamps_cong [OF ds3] buffers_on_cong [OF ds3, of FECSOURCE]
          buffers_on_cong [OF ds3, of FECREPAIR] f1 by simp_all
      have g3: "cur_source_block_nr e3 = cur_source_block_nr e"
        "enc_num_repair_symbols e3 = enc_num_repair_symbols e"
        "enc_num_source_symbols e3 = enc_num_source_symbols e"
        "cur_num_adus e3 = cur_num_adus e + 1"
        using e2 f1 by (simp_all add: e3_def)
      from pr have pr3: "gst_rs_fec_enc_process_source_block e3 = Inr (ret, e')"
        by (simp add: e3_def)
      from process_source_block_enc_effect [OF pr3] obtain n where
        st: "stamps e' = stamps e3 @ replicate n (cur_source_block_nr e3 AND 0xFFFFFF)"
        and bs: "buffers_on FECSOURCE e' = buffers_on FECSOURCE e3"
        and c: "cur_source_block_nr e' = cur_source_block_nr e3
            \<or> (cur_source_block_nr e' = cur_source_block_nr e3 + 1 \<and> ret = GST_FLOW_OK
                \<and> buffers_on FECREPAIR e' = buffers_on FECREPAIR e3 + enc_num_repair_symbols e3
                \<and> enc_num_source_symbols e3 \<le> cur_num_adus e3)"
        by blast
      have st': "stamps e' = stamps e @ replicate (Suc n) ?x"
        using st f3(1) g3(1) by (simp add: replicate_append_same)
      have "cur_source_block_nr e' = cur_source_block_nr e
               \<or> (cur_source_block_nr e' = cur_source_block_nr e + 1 \<and> Suc n > 0
                   \<and> ret = GST_FLOW_OK
                   \<and> buffers_on FECREPAIR e' = buffers_on FECREPAIR e + enc_num_repair_symbols e
                   \<and> buffers_on FECSOURCE e' = buffers_on FECSOURCE e + 1
                   \<and> enc_num_source_symbols e \<le> cur_num_adus e + 1)"
        using c bs f3 g3 by auto
      with st' show ?thesis by blast
    qed
  qed
qed

lemma enc_step_effect:
  assumes "enc_step e op = Inr (ret, e')"
  shows "\<exists>n. stamps e' = stamps e @ replicate n (cur_source_block_nr e AND 0xFFFFFF)
           \<and> (cur_source_block_nr e' = cur_source_block_nr e
               \<or> (cur_source_block_nr e' = cur_source_block_nr e + 1 \<and> n > 0
                   \<and> (\<exists>buffer. op = Chain buffer)
                   \<and> ret = GST_FLOW_OK
                   \<and> buffers_on FECREPAIR e' = buffers_on FECREPAIR e + enc_num_repair_symbols e
                   \<and> buffers_on FECSOURCE e' = buffers_on FECSOURCE e + 1
                   \<and> enc_num_source_symbols e \<le> cur_num_adus e + 1))"
proof (cases op)
  case (Chain buffer)
  with assms have "gst_rs_fec_enc_sink_chain e buffer = Inr (ret, e')" by simp
  from sink_chain_effect [OF this] Chain show ?thesis by blast
next
  case Event_FLUSH_STOP
  with assms have "e' = gst_rs_fec_enc_flush e" by simp
  then have "stamps e' = stamps e @ replicate 0 (cur_source_block_nr e AND 0xFFFFFF)"
    "cur_source_block_nr e' = cur_source_block_nr e"
    by (simp_all add: stamps_def flush_frame)
  then show ?thesis by blast
next
  case Event_EOS
  with assms have "e' = gst_rs_fec_enc_sink_event_eos e" by simp
  then have "stamps e' = stamps e @ replicate 0 (cur_source_block_nr e AND 0xFFFFFF)"
    "cur_source_block_nr e' = cur_source_block_nr e"
    by (simp_all add: stamps_def gst_rs_fec_enc_sink_event_eos_def Let_def
        flush_all_fec_repair_packets_frame flush_all_adus_frame stamps_push_event)
  then show ?thesis by blast
next
  case READY_TO_PAUSED
  with assms have "e' = gst_rs_fec_enc_reset_states e" by simp
  then have "stamps e' = stamps e @ replicate 0 (cur_source_block_nr e AND 0xFFFFFF)"
    "cur_source_block_nr e' = cur_source_block_nr e"
    by (simp_all add: stamps_def reset_states_frame)
  then show ?thesis by blast
next
  case PAUSED_TO_READY
  with assms have "e' = (gst_rs_fec_enc_flush e)\<lparr>enc_stream_started := False\<rparr>" by simp
  then have "stamps e' = stamps e @ replicate 0 (cur_source_block_nr e AND 0xFFFFFF)"
    "cur_source_block_nr e' = cur_source_block_nr e"
    by (simp_all add: stamps_def flush_frame)
  then show ?thesis by blast
qed

lemma enc_step_invariant:
  assumes "enc_step e op = Inr (ret, e')" and "stamps_behind_counter e"
  shows "stamps_behind_counter e'"
proof -
  from enc_step_effect [OF assms(1)] obtain n where
    "stamps e' = stamps e @ replicate n (cur_source_block_nr e AND 0xFFFFFF)"
    "cur_source_block_nr e' = cur_source_block_nr e
       \<or> (cur_source_block_nr e' = cur_source_block_nr e + 1 \<and> n > 0)"
    by blast
  with assms(2) show ?thesis by (rule stamps_behind_append)
qed

lemma enc_run_invariant:
  "enc_run e ops = Inr e' \<Longrightarrow> stamps_behind_counter e \<Longrightarrow> stamps_behind_counter e'"
proof (induction ops arbitrary: e)
  case Nil
  then show ?case by simp
next
  case (Cons op ops)
  from Cons.prems(1) obtain ret e1 where st: "enc_step e op = Inr (ret, e1)"
    and run: "enc_run e1 ops = Inr e'"
    by (cases "enc_step e op") auto
  from enc_step_invariant [OF st Cons.prems(2)] have "stamps_behind_counter e1" .
  with run show ?case by (rule Cons.IH)
qed

text \<open>
  C10. A flush and a reset of the states leave the encoder's block counter alone. One
  operation either keeps the counter or adds exactly one to it, and it adds one only in
  a chain call that returned \<open>GST_FLOW_OK\<close> after the block's last source packet and all
  its \<open>r\<close> repair packets had been pushed. Over any sequence of ADUs, events and state
  changes, starting with nothing pushed yet, the block numbers stamped into the pushed
  source and repair packets never step back: each repeats its predecessor or is its
  successor modulo \<open>2^24\<close>.
\<close>

theorem C10_block_counter_never_reset:
  "cur_source_block_nr (gst_rs_fec_enc_flush e) = cur_source_block_nr e
   \<and> cur_source_block_nr (gst_rs_fec_enc_reset_states e) = cur_source_block_nr e
   \<and> (enc_step e op = Inr (ret, e') \<longrightarrow>
        cur_source_block_nr e' = cur_source_block_nr e
        \<or> (cur_source_block_nr e' = cur_source_block_nr e + 1
            \<and> (\<exists>buffer. op = Chain buffer)
            \<and> ret = GST_FLOW_OK
            \<and> buffers_on FECREPAIR e' = buffers_on FECREPAIR e + enc_num_repair_symbols e
            \<and> buffers_on FECSOURCE e' = buffers_on FECSOURCE e + 1
            \<and> enc_num_source_symbols e \<le> cur_num_adus e + 1))
   \<and> (pushed (enc_downstream e0) = [] \<and> enc_run e0 ops = Inr e1 \<longrightarrow>
        non_decreasing24 (stamps e1))"
proof -
  have step: "cur_source_block_nr e' = cur_source_block_nr e
        \<or> (cur_source_block_nr e' = cur_source_block_nr e + 1
            \<and> (\<exists>buffer. op = Chain buffer)
            \<and> ret = GST_FLOW_OK
            \<and> buffers_on FECREPAIR e' = buffers_on FECREPAIR e + enc_num_repair_symbols e
            \<and> buffers_on FECSOURCE e' = buffers_on FECSOURCE e + 1
            \<and> enc_num_source_symbols e \<le> cur_num_adus e + 1)"
    if "enc_step e op = Inr (ret, e')"
    using enc_step_effect [OF that] by blast
  have run: "non_decreasing24 (stamps e1)"
    if "pushed (enc_downstream e0) = []" "enc_run e0 ops = Inr e1"
  proof -
    from that(1) have "stamps_behind_counter e0"
      by (simp add: stamps_behind_counter_def stamps_def List.map_filter_def)
    from enc_run_invariant [OF that(2) this] show ?thesis
      by (simp add: stamps_behind_counter_def)
  qed
  from step run show ?thesis by (simp add: flush_frame reset_states_frame)
qed

lemma enc_run_snoc:
  "enc_run e (ops @ [op]) =
     (case enc_run e ops of
        Inl f \<Rightarrow> Inl f
      | Inr e1 \<Rightarrow> (case enc_step e1 op of Inl f \<Rightarrow> Inl f | Inr (ret, e2) \<Rightarrow> Inr e2))"
  by (induction ops arbitrary: e) (auto split: sum.splits prod.splits)

lemma enc_after_step:
  assumes "enc_run e (ops @ [op]) = Inr e2"
  shows "\<exists>ret. enc_step (enc_after e ops) op = Inr (ret, enc_after e (ops @ [op]))"
  using assms unfolding enc_after_def enc_run_snoc
  by (auto split: sum.splits prod.splits)

lemma enc_after_run:
  assumes "enc_run e ops = Inr e2"
  shows "enc_run e ops = Inr (enc_after e ops)"
  using assms unfolding enc_after_def by simp

lemma upt_0_2: "[0 ..< (2::nat)] = [0, 1]"
  by (simp add: numeral_2_eq_2)

lemmas enc_eval =
  gst_rs_fec_enc_init_def gst_rs_fec_enc_sink_chain_def gst_rs_fec_enc_push_adu_def
  gst_pad_push_def gst_pad_push_event_def accepting_downstream_def working_openfec_def
  gst_rs_fec_enc_insert_adu_def gst_rs_fec_enc_process_source_block_def
  prepare_source_symbols_def gst_rs_fec_enc_configure_fec_def of_invoke_def
  push_start_events_def repair_symbol_bytes_def process_source_block_cleanup_enc_def
  gst_rs_fec_enc_flush_all_adus_def gst_rs_fec_enc_flush_all_fec_repair_packets_def
  gst_rs_fec_enc_flush_def gst_rs_fec_enc_reset_states_def Let_def
  replicate_4_None upt_0_2 default_encoder_def

lemma default_encoder_four_adus:
  "\<exists>e4. enc_run default_encoder [Chain [1], Chain [2, 2], Chain [3], Chain [4]] = Inr e4"
  by (simp add: enc_eval)

lemma default_encoder_resumed:
  "\<exists>e9. enc_run default_encoder
        [Chain [1], Chain [2, 2], Chain [3], Chain [4], Event_FLUSH_STOP, Chain [5],
         PAUSED_TO_READY, READY_TO_PAUSED, Chain [6]] = Inr e9"
  by (simp add: enc_eval)

lemma default_encoder_counts:
  "cur_source_block_nr (enc_after default_encoder [Chain [1], Chain [2, 2], Chain [3]]) = 0"
  "buffers_on FECREPAIR (enc_after default_encoder [Chain [1], Chain [2, 2], Chain [3]]) = 0"
  "enc_num_repair_symbols (enc_after default_encoder [Chain [1], Chain [2, 2], Chain [3]]) = 2"
  "cur_source_block_nr (enc_after default_encoder ([Chain [1], Chain [2, 2], Chain [3]] @ [Chain [4]])) = 1"
  by (simp_all add: enc_after_def enc_eval buffers_on_def)


lemma default_encoder_stamps:
  "stamps (enc_after default_encoder
        [Chain [1], Chain [2, 2], Chain [3], Chain [4], Event_FLUSH_STOP, Chain [5],
         PAUSED_TO_READY, READY_TO_PAUSED, Chain [6]]) = [0, 0, 0, 0, 0, 0, 1, 1]"
  by (simp add: enc_after_def enc_eval stamps_def List.map_filter_def fec_payload_id_def
        gst_rs_fec_dec_source_packet_read_payload_id_def
        gst_rs_fec_dec_repair_packet_read_payload_id_def payload_id_block_nr_def)

theorem C10_block_counter_never_reset_witness:
  "(\<exists>ret. enc_step (enc_after default_encoder [Chain [1], Chain [2, 2], Chain [3]]) (Chain [4])
           = Inr (ret, enc_after default_encoder [Chain [1], Chain [2, 2], Chain [3], Chain [4]])
         \<and> ret = GST_FLOW_OK)
   \<and> cur_source_block_nr (enc_after default_encoder [Chain [1], Chain [2, 2], Chain [3]]) = 0
   \<and> cur_source_block_nr (enc_after default_encoder [Chain [1], Chain [2, 2], Chain [3], Chain [4]]) = 1
   \<and> buffers_on FECREPAIR (enc_after default_encoder [Chain [1], Chain [2, 2], Chain [3]]) = 0
   \<and> buffers_on FECREPAIR (enc_after default_encoder [Chain [1], Chain [2, 2], Chain [3], Chain [4]]) = 2
   \<and> cur_source_block_nr (gst_rs_fec_enc_flush
        (enc_after default_encoder [Chain [1], Chain [2, 2], Chain [3]])) = 0
   \<and> pushed (enc_downstream default_encoder) = []
   \<and> enc_run default_encoder
        [Chain [1], Chain [2, 2], Chain [3], Chain [4], Event_FLUSH_STOP, Chain [5],
         PAUSED_TO_READY, READY_TO_PAUSED, Chain [6]]
      = Inr (enc_after default_encoder
        [Chain [1], Chain [2, 2], Chain [3], Chain [4], Event_FLUSH_STOP, Chain [5],
         PAUSED_TO_READY, READY_TO_PAUSED, Chain [6]])
   \<and> stamps (enc_after default_encoder
        [Chain [1], Chain [2, 2], Chain [3], Chain [4], Event_FLUSH_STOP, Chain [5],
         PAUSED_TO_READY, READY_TO_PAUSED, Chain [6]]) = [0, 0, 0, 0, 0, 0, 1, 1]
   \<and> non_decreasing24 (stamps (enc_after default_encoder
        [Chain [1], Chain [2, 2], Chain [3], Chain [4], Event_FLUSH_STOP, Chain [5],
         PAUSED_TO_READY, READY_TO_PAUSED, Chain [6]]))"
proof -
  let ?ops3 = "[Chain [1], Chain [2, 2], Chain [3]]"
  let ?e3 = "enc_after default_encoder ?ops3"
  let ?e4 = "enc_after default_encoder [Chain [1], Chain [2, 2], Chain [3], Chain [4]]"
  let ?ops = "[Chain [1], Chain [2, 2], Chain [3], Chain [4], Event_FLUSH_STOP, Chain [5],
         PAUSED_TO_READY, READY_TO_PAUSED, Chain [6]]"
  let ?e9 = "enc_after default_encoder ?ops"
  from default_encoder_four_adus obtain e4 where
    "enc_run default_encoder (?ops3 @ [Chain [4]]) = Inr e4" by auto
  from enc_after_step [OF this] obtain ret where
    "enc_step ?e3 (Chain [4]) = Inr (ret, enc_after default_encoder (?ops3 @ [Chain [4]]))"
    by blast
  then have st: "enc_step ?e3 (Chain [4]) = Inr (ret, ?e4)"
    by (simp only: append.simps)
  from default_encoder_resumed obtain e9 where "enc_run default_encoder ?ops = Inr e9" by blast
  from enc_after_run [OF this] have run: "enc_run default_encoder ?ops = Inr ?e9" .
  have nil: "pushed (enc_downstream default_encoder) = []"
    by (simp add: default_encoder_def gst_rs_fec_enc_init_def accepting_downstream_def)
  have c3: "cur_source_block_nr ?e3 = 0" and r3: "buffers_on FECREPAIR ?e3 = 0"
    and k3: "enc_num_repair_symbols ?e3 = 2" and c4: "cur_source_block_nr ?e4 = 1"
    using default_encoder_counts by simp_all
  note s9 = default_encoder_stamps
  note inst = C10_block_counter_never_reset [where e = ?e3 and op = "Chain [4]" and ret = ret
      and e' = ?e4 and ?e0.0 = default_encoder and ops = ?ops and ?e1.0 = ?e9]
  from inst have f3: "cur_source_block_nr (gst_rs_fec_enc_flush ?e3) = 0"
    by (simp only: c3)
  from inst st have "cur_source_block_nr ?e4 = cur_source_block_nr ?e3
        \<or> (cur_source_block_nr ?e4 = cur_source_block_nr ?e3 + 1
            \<and> (\<exists>buffer. Chain [4] = Chain buffer)
            \<and> ret = GST_FLOW_OK
            \<and> buffers_on FECREPAIR ?e4 = buffers_on FECREPAIR ?e3 + enc_num_repair_symbols ?e3
            \<and> buffers_on FECSOURCE ?e4 = buffers_on FECSOURCE ?e3 + 1
            \<and> enc_num_source_symbols ?e3 \<le> cur_num_adus ?e3 + 1)"
    by blast
  then have ok: "ret = GST_FLOW_OK" and r4: "buffers_on FECREPAIR ?e4 = 2"
    by (simp_all add: c3 c4 r3 k3)
  from inst nil run have nd: "non_decreasing24 (stamps ?e9)" by blast
  from st ok c3 c4 r3 r4 f3 nil run s9 nd show ?thesis by blast
qed

end
